theory Spec2Isabelle
  imports Complex_Main "HOL-Library.Multiset"
begin

section \<open>Exceptions, the game object and the rule engine\<close>

text \<open>
  The Python exceptions that the modelled code raises, catches or lets through.
  \<open>GameOver\<close> and \<open>InvalidAction\<close> come from the rule engine (fireplace),
  \<open>UnhandledAction\<close> from the repository's utils module, the others are built in.
  \<open>NotANumber\<close> is no exception of Python: it marks the one place where numpy
  goes on with nan entries, which real numbers cannot follow.
\<close>

datatype exn =
    GameOver
  | InvalidAction
  | UnhandledAction
  | IndexError
  | KeyError
  | TypeError
  | ValueError
  | ZeroDivisionError
  | UnboundLocalError
  | NotANumber

datatype seat = First | Second

text \<open>
  The attributes of a fireplace Player and Game object that Game.py and MCTS.py read or
  write. Cards, minions, heroes and hero powers are entities of type \<open>'c\<close>;
  whatever else the engine keeps is \<open>hidden\<close>.
\<close>

record 'c player =
  hand :: "'c list"
  deck :: "'c list"
  field :: "'c list"
  hero :: 'c
  power :: 'c
  choice :: "'c list option"
  playstate :: int

record ('c, 'h) game =
  player1 :: "'c player"
  player2 :: "'c player"
  current :: seat
  player_to_start :: seat
  ended :: bool
  turn :: int
  current_decay :: real
  hidden :: 'h

text \<open>
  The rule engine is not part of the repository. Its methods are parameters: the
  queries on an entity, and the actions, each of which returns the game as it left it
  together with the exception it raised, if any. \<open>getState\<close> (the 263 feature
  encoding) is carried here too: the search uses it only as a key.
\<close>

record ('c, 'h, 'e) engine =
  is_playable :: "('c, 'h) game \<Rightarrow> 'c \<Rightarrow> bool"
  requires_target :: "('c, 'h) game \<Rightarrow> 'c \<Rightarrow> bool"
  must_choose_one :: "('c, 'h) game \<Rightarrow> 'c \<Rightarrow> bool"
  targets :: "('c, 'h) game \<Rightarrow> 'c \<Rightarrow> 'c list"
  choose_cards :: "('c, 'h) game \<Rightarrow> 'c \<Rightarrow> 'c list"
  choose_targets :: "('c, 'h) game \<Rightarrow> 'c \<Rightarrow> 'c list"
  can_attack :: "('c, 'h) game \<Rightarrow> 'c \<Rightarrow> bool"
  attack_targets :: "('c, 'h) game \<Rightarrow> 'c \<Rightarrow> 'c list"
  is_usable :: "('c, 'h) game \<Rightarrow> 'c \<Rightarrow> bool"
  play_targets :: "('c, 'h) game \<Rightarrow> 'c \<Rightarrow> 'c list"
  play :: "('c, 'h) game \<Rightarrow> 'c \<Rightarrow> 'c option \<Rightarrow> 'c option \<Rightarrow> exn option \<times> ('c, 'h) game"
  attack :: "('c, 'h) game \<Rightarrow> 'c \<Rightarrow> 'c \<Rightarrow> exn option \<times> ('c, 'h) game"
  use :: "('c, 'h) game \<Rightarrow> 'c \<Rightarrow> 'c option \<Rightarrow> exn option \<times> ('c, 'h) game"
  end_turn :: "('c, 'h) game \<Rightarrow> exn option \<times> ('c, 'h) game"
  choose_card :: "('c, 'h) game \<Rightarrow> 'c \<Rightarrow> exn option \<times> ('c, 'h) game"
  getState :: "('c, 'h) game \<Rightarrow> 'e"

definition seated :: "('c, 'h) game \<Rightarrow> seat \<Rightarrow> 'c player" where
  "seated g p = (case p of First \<Rightarrow> player1 g | Second \<Rightarrow> player2 g)"

definition other :: "seat \<Rightarrow> seat" where
  "other p = (case p of First \<Rightarrow> Second | Second \<Rightarrow> First)"

definition current_player :: "('c, 'h) game \<Rightarrow> 'c player" where
  "current_player g = seated g (current g)"

definition opponent :: "('c, 'h) game \<Rightarrow> 'c player" where
  "opponent g = seated g (other (current g))"

text \<open>Python's \<open>xs[i]\<close>: a negative index counts from the end, out of range raises.\<close>

definition subscript :: "'a list \<Rightarrow> int \<Rightarrow> 'a option" where
  "subscript xs i =
     (if 0 \<le> i \<and> i < int (length xs) then Some (xs ! nat i)
      else if i < 0 \<and> - int (length xs) \<le> i then Some (xs ! nat (int (length xs) + i))
      else None)"

section \<open>Game.py\<close>

subsection \<open>getGameEnded\<close>

definition getGameEnded :: "('c, 'h) game \<Rightarrow> real \<times> ('c, 'h) game" where
  "getGameEnded game_instance =
     (let p1 = seated game_instance (player_to_start game_instance) in
      if playstate p1 = 4 then (1, game_instance)
      else if playstate p1 = 5 then (- 1, game_instance)
      else if playstate p1 = 6 then (1 / 10000, game_instance)
      else if turn game_instance > 180 then (1 / 10000, game_instance\<lparr>ended := True\<rparr>)
      else (0, game_instance))"

subsection \<open>performAction\<close>

text \<open>The body of the \<open>try\<close> block: the chain of tests on the slot \<open>a[0]\<close>.\<close>

definition attempt ::
  "('c, 'h, 'e) engine \<Rightarrow> int \<times> int \<Rightarrow> ('c, 'h) game \<Rightarrow> exn option \<times> ('c, 'h) game" where
  "attempt eng a g =
     (let player = current_player g in
      if 0 \<le> fst a \<and> fst a \<le> 9 then
        (case subscript (hand player) (fst a) of
           None \<Rightarrow> (Some IndexError, g)
         | Some crd \<Rightarrow>
             if requires_target eng g crd then
               (case subscript (targets eng g crd) (snd a) of
                  None \<Rightarrow> (Some IndexError, g)
                | Some t \<Rightarrow> play eng g crd (Some t) None)
             else if must_choose_one eng g crd then
               (case subscript (choose_targets eng g crd) (snd a) of
                  None \<Rightarrow> (Some IndexError, g)
                | Some t \<Rightarrow> play eng g crd None (Some t))
             else play eng g crd None None)
      else if 10 \<le> fst a \<and> fst a \<le> 16 then
        (case subscript (field player) (fst a - 10) of
           None \<Rightarrow> (Some IndexError, g)
         | Some minion \<Rightarrow>
             (case subscript (attack_targets eng g minion) (snd a) of
                None \<Rightarrow> (Some IndexError, g)
              | Some t \<Rightarrow> attack eng g minion t))
      else if fst a = 17 then
        (if requires_target eng g (power player) then
           (case subscript (play_targets eng g (power player)) (snd a) of
              None \<Rightarrow> (Some IndexError, g)
            | Some t \<Rightarrow> use eng g (power player) (Some t))
         else use eng g (power player) None)
      else if fst a = 18 then
        (case subscript (attack_targets eng g (hero player)) (snd a) of
           None \<Rightarrow> (Some IndexError, g)
         | Some t \<Rightarrow> attack eng g (hero player) t)
      else if fst a = 19 then end_turn eng g
      else if fst a = 20 \<and> choice player = None then end_turn eng g
      else
        (case choice player of
           Some cards \<Rightarrow>
             (case subscript cards (snd a) of
                None \<Rightarrow> (Some IndexError, g)
              | Some crd \<Rightarrow> choose_card eng g crd)
         | None \<Rightarrow> (Some UnhandledAction, g)))"

text \<open>
  The \<open>except\<close> clauses, in the source's order: UnhandledAction is raised again,
  InvalidAction ends the turn (unguarded), IndexError ends the turn and drops a GameOver
  of that call, GameOver is dropped; any other exception leaves the function.
\<close>

definition performAction ::
  "('c, 'h, 'e) engine \<Rightarrow> int \<times> int \<Rightarrow> ('c, 'h) game \<Rightarrow> exn option \<times> ('c, 'h) game" where
  "performAction eng a g =
     (if ended g then (None, g)
      else
        (case attempt eng a g of
           (None, g1) \<Rightarrow> (None, g1)
         | (Some UnhandledAction, g1) \<Rightarrow> (Some UnhandledAction, g1)
         | (Some InvalidAction, g1) \<Rightarrow> end_turn eng g1
         | (Some IndexError, g1) \<Rightarrow>
             (case end_turn eng g1 of
                (Some GameOver, g2) \<Rightarrow> (None, g2)
              | r \<Rightarrow> r)
         | (Some GameOver, g1) \<Rightarrow> (None, g1)
         | (Some e, g1) \<Rightarrow> (Some e, g1)))"

subsection \<open>getNextState\<close>

definition getNextState ::
  "('c, 'h, 'e) engine \<Rightarrow> int \<Rightarrow> int \<times> int \<Rightarrow> ('c, 'h) game
     \<Rightarrow> (exn + 'e \<times> int) \<times> ('c, 'h) game" where
  "getNextState eng player action g =
     (case performAction eng action g of
        (Some GameOver, g1) \<Rightarrow>
          (Inr (getState eng g1, if fst action \<noteq> 19 then player else - player), g1)
      | (Some e, g1) \<Rightarrow> (Inl e, g1)
      | (None, g1) \<Rightarrow>
          (Inr (getState eng g1, if fst action \<noteq> 19 then player else - player), g1))"

subsection \<open>getValidMoves\<close>

text \<open>
  The 21 x 18 array of the legal moves, as the set of its cells that hold 1. An
  assignment to a cell outside the array is numpy's IndexError.
\<close>

type_synonym act = "nat \<times> nat"

type_synonym mask = "act \<Rightarrow> bool"

text \<open>\<open>for t, _ in enumerate(xs): actions[r, t] = 1\<close>, for a list of \<open>n\<close> entries.\<close>

definition mark_targets :: "nat \<Rightarrow> nat \<Rightarrow> mask \<Rightarrow> exn + mask" where
  "mark_targets r n actions =
     (if n = 0 then Inr actions
      else if r < 21 \<and> n \<le> 18 then Inr (\<lambda>(a, b). (a = r \<and> b < n) \<or> actions (a, b))
      else Inl IndexError)"

text \<open>\<open>actions[r] = 1\<close>: the whole row.\<close>

definition mark_row :: "nat \<Rightarrow> mask \<Rightarrow> exn + mask" where
  "mark_row r actions =
     (if r < 21 then Inr (\<lambda>(a, b). (a = r \<and> b < 18) \<or> actions (a, b)) else Inl IndexError)"

fun hand_moves ::
  "('c, 'h, 'e) engine \<Rightarrow> ('c, 'h) game \<Rightarrow> nat \<Rightarrow> 'c list \<Rightarrow> mask \<Rightarrow> exn + mask" where
  "hand_moves eng g index [] actions = Inr actions"
| "hand_moves eng g index (c # cs) actions =
     (if is_playable eng g c then
        (case (if requires_target eng g c
               then mark_targets index (length (targets eng g c)) actions
               else if must_choose_one eng g c
               then mark_targets index (length (choose_cards eng g c)) actions
               else mark_row index actions) of
           Inl e \<Rightarrow> Inl e
         | Inr actions' \<Rightarrow> hand_moves eng g (Suc index) cs actions')
      else hand_moves eng g (Suc index) cs actions)"

fun field_moves ::
  "('c, 'h, 'e) engine \<Rightarrow> ('c, 'h) game \<Rightarrow> nat \<Rightarrow> 'c list \<Rightarrow> mask \<Rightarrow> exn + mask" where
  "field_moves eng g position [] actions = Inr actions"
| "field_moves eng g position (m # ms) actions =
     (if can_attack eng g m then
        (case mark_targets (position + 10) (length (attack_targets eng g m)) actions of
           Inl e \<Rightarrow> Inl e
         | Inr actions' \<Rightarrow> field_moves eng g (Suc position) ms actions')
      else field_moves eng g (Suc position) ms actions)"

definition getValidMoves :: "('c, 'h, 'e) engine \<Rightarrow> ('c, 'h) game \<Rightarrow> exn + mask" where
  "getValidMoves eng g =
     (let player = current_player g in
      case choice player of
        Some cards \<Rightarrow> mark_targets 20 (length cards) (\<lambda>_. False)
      | None \<Rightarrow>
          (case hand_moves eng g 0 (hand player) (\<lambda>_. False) of
             Inl e \<Rightarrow> Inl e
           | Inr a1 \<Rightarrow>
               (case field_moves eng g 0 (field player) a1 of
                  Inl e \<Rightarrow> Inl e
                | Inr a2 \<Rightarrow>
                    (case (if is_usable eng g (power player) then
                             (if requires_target eng g (power player)
                              then mark_targets 17 (length (targets eng g (power player))) a2
                              else mark_row 17 a2)
                           else Inr a2) of
                       Inl e \<Rightarrow> Inl e
                     | Inr a3 \<Rightarrow>
                         (case (if can_attack eng g (hero player)
                                then mark_targets 18
                                       (length (attack_targets eng g (hero player))) a3
                                else Inr a3) of
                            Inl e \<Rightarrow> Inl e
                          | Inr a4 \<Rightarrow> Inr (a4((19, 1) := True)))))))"

text \<open>
  \<open>stringRepresentation\<close> is the byte string of the feature array; for arrays of one
  shape and type it determines the array and is determined by it, so the key is the
  encoding itself.
\<close>

definition stringRepresentation :: "'e \<Rightarrow> 'e" where
  "stringRepresentation state = state"

section \<open>MCTS.py\<close>

subsection \<open>The dictionaries of the tree\<close>

text \<open>Python's \<open>k in m\<close> for a dictionary \<open>m\<close>.\<close>

definition has_key :: "('k \<rightharpoonup> 'v) \<Rightarrow> 'k \<Rightarrow> bool" where
  "has_key m k = (case m k of None \<Rightarrow> False | Some v \<Rightarrow> True)"

record 'e tree =
  Qsa :: "'e \<times> act \<rightharpoonup> real"
  Nsa :: "'e \<times> act \<rightharpoonup> nat"
  Ns :: "'e \<rightharpoonup> nat"
  Ps :: "'e \<rightharpoonup> (act \<Rightarrow> real)"
  Es :: "'e \<rightharpoonup> real"
  Vs :: "'e \<rightharpoonup> mask"

definition init_tree :: "'e tree" where
  "init_tree = \<lparr>Qsa = Map.empty, Nsa = Map.empty, Ns = Map.empty, Ps = Map.empty,
                Es = Map.empty, Vs = Map.empty\<rparr>"

definition EPS :: real where
  "EPS = 1 / 100000000"

text \<open>The scan order \<open>for a in range(21): for b in range(18)\<close>.\<close>

definition grid :: "act list" where
  "grid = List.product [0..<21] [0..<18]"

subsection \<open>cloneAndRandomize\<close>

text \<open>
  \<open>random.shuffle\<close> of the standard library: for \<open>i\<close> from the last index down to 1,
  swap entry \<open>i\<close> with entry \<open>randbelow(i + 1)\<close>. The generator is the sequence
  \<open>rnd\<close> of its raw draws and the position \<open>k\<close> of the next one.
\<close>

fun shuffle_loop :: "(nat \<Rightarrow> nat) \<Rightarrow> nat \<Rightarrow> nat \<Rightarrow> 'a list \<Rightarrow> 'a list \<times> nat" where
  "shuffle_loop rnd 0 k x = (x, k)"
| "shuffle_loop rnd (Suc i) k x =
     (let j = rnd k mod (Suc i + 1)
      in shuffle_loop rnd i (Suc k) (x[Suc i := x ! j, j := x ! Suc i]))"

definition shuffle :: "(nat \<Rightarrow> nat) \<Rightarrow> nat \<Rightarrow> 'a list \<Rightarrow> 'a list \<times> nat" where
  "shuffle rnd k x = shuffle_loop rnd (length x - 1) k x"

text \<open>The deep copy is the value itself; the two shuffles act on the opponent's lists.\<close>

definition cloneAndRandomize ::
  "(nat \<Rightarrow> nat) \<Rightarrow> nat \<Rightarrow> ('c, 'h) game \<Rightarrow> ('c, 'h) game \<times> nat" where
  "cloneAndRandomize rnd k game_instance =
     (let enemy = opponent game_instance;
          (h, k1) = shuffle rnd k (hand enemy);
          (d, k2) = shuffle rnd k1 (deck enemy);
          enemy' = enemy\<lparr>hand := h, deck := d\<rparr>
      in (case other (current game_instance) of
            First \<Rightarrow> game_instance\<lparr>player1 := enemy'\<rparr>
          | Second \<Rightarrow> game_instance\<lparr>player2 := enemy'\<rparr>,
          k2))"

subsection \<open>search: selection\<close>

text \<open>
  The score of one legal action. Floats are read as reals. A key that is missing from a
  dictionary is a KeyError.
\<close>

definition ucb :: "'e tree \<Rightarrow> real \<Rightarrow> 'e \<Rightarrow> act \<Rightarrow> exn + real" where
  "ucb t cpuct s a =
     (if has_key (Qsa t) (s, a) then
        (case (Qsa t (s, a), Ps t s, Ns t s, Nsa t (s, a)) of
           (Some q, Some p, Some n, Some na) \<Rightarrow>
             Inr (q + cpuct * p a * sqrt (real n) / (1 + real na))
         | _ \<Rightarrow> Inl KeyError)
      else
        (case (Ps t s, Ns t s) of
           (Some p, Some n) \<Rightarrow> Inr (cpuct * p a * sqrt (real n + EPS))
         | _ \<Rightarrow> Inl KeyError))"

text \<open>
  The two nested \<open>for\<close> statements, over the cells that remain. \<open>cur_best\<close> is \<open>None\<close>
  while it is still minus infinity, \<open>best_act\<close> is \<open>None\<close> while it is still -1.
\<close>

fun scan ::
  "'e tree \<Rightarrow> real \<Rightarrow> 'e \<Rightarrow> mask \<Rightarrow> act list \<Rightarrow> real option \<times> act option
     \<Rightarrow> exn + real option \<times> act option" where
  "scan t cpuct s valids [] acc = Inr acc"
| "scan t cpuct s valids (a # as) (cur_best, best_act) =
     (if valids a then
        (case ucb t cpuct s a of
           Inl e \<Rightarrow> Inl e
         | Inr u \<Rightarrow>
             if (case cur_best of None \<Rightarrow> True | Some c \<Rightarrow> u > c)
             then scan t cpuct s valids as (Some u, Some a)
             else scan t cpuct s valids as (cur_best, best_act))
      else scan t cpuct s valids as (cur_best, best_act))"

definition best_action :: "'e tree \<Rightarrow> real \<Rightarrow> 'e \<Rightarrow> mask \<Rightarrow> exn + act option" where
  "best_action t cpuct s valids =
     (case scan t cpuct s valids grid (None, None) of
        Inl e \<Rightarrow> Inl e
      | Inr (cur_best, best_act) \<Rightarrow> Inr best_act)"

type_synonym 'e path = "('e \<times> act \<times> seat) list"

text \<open>
  The selection loop. It returns the clone, the key reached, the last encoding and the
  path; an exception leaves the loop, except GameOver from getNextState, which breaks
  it. Calling getNextState with the integer -1 of an empty scan is a TypeError.
\<close>

partial_function (option) select ::
  "('c, 'h, 'e) engine \<Rightarrow> real \<Rightarrow> 'e tree \<Rightarrow> ('c, 'h) game \<Rightarrow> 'e \<Rightarrow> 'e \<Rightarrow> 'e path
     \<Rightarrow> (exn + ('c, 'h) game \<times> 'e \<times> 'e \<times> 'e path) option" where
  "select eng cpuct t game_copy s next_s path =
     (if \<not> has_key (Es t) s \<and> has_key (Ps t) s \<and> \<not> ended game_copy then
        (case getValidMoves eng game_copy of
           Inl e \<Rightarrow> Some (Inl e)
         | Inr valids \<Rightarrow>
             (case best_action t cpuct s valids of
                Inl e \<Rightarrow> Some (Inl e)
              | Inr None \<Rightarrow> Some (Inl TypeError)
              | Inr (Some best_act) \<Rightarrow>
                  (case getNextState eng 1 (int (fst best_act), int (snd best_act)) game_copy of
                     (Inl e, g1) \<Rightarrow>
                       if e = GameOver then Some (Inr (g1, s, next_s, path))
                       else Some (Inl e)
                   | (Inr (next_s', next_player), g1) \<Rightarrow>
                       select eng cpuct t g1 (stringRepresentation next_s') next_s'
                         (path @ [(s, best_act, current game_copy)]))))
      else Some (Inr (game_copy, s, next_s, path)))"

subsection \<open>search: expansion\<close>

text \<open>
  \<open>Ps[s]*valids + valids*current_decay\<close> and its sum over the array. Where the sum
  is zero numpy's division fills the array with nan and inf, which the reals do not
  have: the result is \<open>None\<close> there.
\<close>

definition masked :: "(act \<Rightarrow> real) \<Rightarrow> mask \<Rightarrow> real \<Rightarrow> act \<Rightarrow> real" where
  "masked p valids decay a = p a * of_bool (valids a) + of_bool (valids a) * decay"

definition masked_prior :: "(act \<Rightarrow> real) \<Rightarrow> mask \<Rightarrow> real \<Rightarrow> (act \<Rightarrow> real) option" where
  "masked_prior p valids decay =
     (let sum_Ps_s = sum_list (map (masked p valids decay) grid)
      in if sum_Ps_s = 0 then None
         else Some (\<lambda>a. masked p valids decay a / sum_Ps_s))"

text \<open>
  The statement after the selection loop: an ended game caches its outcome under the
  key reached.
\<close>

definition cache_outcome ::
  "'e tree \<Rightarrow> ('c, 'h) game \<Rightarrow> 'e \<Rightarrow> 'e tree \<times> ('c, 'h) game" where
  "cache_outcome t game_copy s =
     (if ended game_copy then
        (case getGameEnded game_copy of
           (r, g1) \<Rightarrow> (t\<lparr>Es := (Es t)(s \<mapsto> r)\<rparr>, g1))
      else (t, game_copy))"

text \<open>
  The oracle \<open>nnet.predict\<close> is a parameter. The raw prior is stored under the key
  before the legal moves are asked for, so an exception of getValidMoves leaves it there.
  The third component is the local variable \<open>v\<close>, \<open>None\<close> while it is unbound.
\<close>

definition expand ::
  "('c, 'h, 'e) engine \<Rightarrow> ('e \<Rightarrow> (act \<Rightarrow> real) \<times> real) \<Rightarrow> 'e tree \<Rightarrow> ('c, 'h) game
     \<Rightarrow> 'e \<Rightarrow> 'e \<Rightarrow> exn option \<times> 'e tree \<times> real option" where
  "expand eng predict t game_copy s next_s =
     (if \<not> has_key (Es t) s \<and> \<not> has_key (Ps t) s then
        (case predict next_s of
           (p, v) \<Rightarrow>
             (let t1 = t\<lparr>Ps := (Ps t)(s \<mapsto> p)\<rparr> in
              case getValidMoves eng game_copy of
                Inl e \<Rightarrow> (Some e, t1, Some v)
              | Inr valids \<Rightarrow>
                  (case masked_prior p valids (current_decay game_copy) of
                     None \<Rightarrow> (Some NotANumber, t1, Some v)
                   | Some p' \<Rightarrow>
                       (None,
                        t1\<lparr>Ps := (Ps t1)(s \<mapsto> p'), Vs := (Vs t1)(s \<mapsto> valids),
                            Ns := (Ns t1)(s \<mapsto> 0)\<rparr>,
                        Some (if current game_copy \<noteq> player_to_start game_copy
                              then - v else v)))))
      else (None, t, None))"

subsection \<open>search: rollout\<close>

text \<open>
  \<open>np.argwhere\<close> lists the legal cells in row-major order; \<open>random.choice\<close> takes
  one draw and raises IndexError on an empty sequence.
\<close>

partial_function (option) simulate ::
  "('c, 'h, 'e) engine \<Rightarrow> 'e tree \<Rightarrow> (nat \<Rightarrow> nat) \<Rightarrow> nat \<Rightarrow> ('c, 'h) game \<Rightarrow> 'e
     \<Rightarrow> (exn + ('c, 'h) game \<times> 'e) option" where
  "simulate eng t rnd k game_copy s =
     (if \<not> has_key (Es t) s \<and> \<not> ended game_copy then
        (case getValidMoves eng game_copy of
           Inl e \<Rightarrow> if e = GameOver then Some (Inr (game_copy, s)) else Some (Inl e)
         | Inr valids \<Rightarrow>
             (let choices = filter valids grid in
              if choices = [] then Some (Inl IndexError)
              else
                (let a = choices ! (rnd k mod length choices) in
                 case getNextState eng 1 (int (fst a), int (snd a)) game_copy of
                   (Inl e, g1) \<Rightarrow>
                     if e = GameOver then Some (Inr (g1, s)) else Some (Inl e)
                 | (Inr (next_s, next_player), g1) \<Rightarrow>
                     simulate eng t rnd (Suc k) g1 (stringRepresentation next_s))))
      else Some (Inr (game_copy, s)))"

subsection \<open>search: backpropagation\<close>

text \<open>
  One entry of the path. \<open>v\<close> is \<open>None\<close> while the local variable is unbound.
\<close>

definition backprop_step ::
  "seat \<Rightarrow> real option \<Rightarrow> 'e tree \<Rightarrow> 'e \<times> act \<times> seat \<Rightarrow> exn option \<times> 'e tree" where
  "backprop_step starter v t ele =
     (case ele of
        (s, a, player) \<Rightarrow>
          (let t1 = (case Nsa t (s, a) of
                       None \<Rightarrow> t\<lparr>Nsa := (Nsa t)((s, a) \<mapsto> 1), Qsa := (Qsa t)((s, a) \<mapsto> 0)\<rparr>
                     | Some n \<Rightarrow> t\<lparr>Nsa := (Nsa t)((s, a) \<mapsto> n + 1)\<rparr>)
           in case Nsa t1 (s, a) of
                None \<Rightarrow> (Some KeyError, t1)
              | Some n \<Rightarrow>
                  (case Qsa t1 (s, a) of
                     None \<Rightarrow> (Some KeyError, t1)
                   | Some q \<Rightarrow>
                       (case v of
                          None \<Rightarrow> (Some UnboundLocalError, t1)
                        | Some x \<Rightarrow>
                            (None,
                             t1\<lparr>Qsa := (Qsa t1)((s, a) \<mapsto>
                                   (if player = starter
                                    then (real n * q + x) / (real n + 1)
                                    else (real n * q - x) / (real n + 1)))\<rparr>)))))"

fun backpropagate ::
  "seat \<Rightarrow> real option \<Rightarrow> 'e tree \<Rightarrow> 'e path \<Rightarrow> exn option \<times> 'e tree" where
  "backpropagate starter v t [] = (None, t)"
| "backpropagate starter v t (ele # rest) =
     (case backprop_step starter v t ele of
        (Some e, t1) \<Rightarrow> (Some e, t1)
      | (None, t1) \<Rightarrow> backpropagate starter v t1 rest)"

text \<open>
  The lines after the rollout: the blend with the outcome of an ended game, the cached
  terminal value, the walk over the path.
\<close>

definition finish ::
  "'e tree \<Rightarrow> ('c, 'h) game \<Rightarrow> 'e \<Rightarrow> real option \<Rightarrow> 'e path \<Rightarrow> exn option \<times> 'e tree" where
  "finish t game_copy s v path =
     (case (if \<not> has_key (Es t) s \<and> ended game_copy then
              (case v of
                 None \<Rightarrow> Inl UnboundLocalError
               | Some x \<Rightarrow>
                   (case getGameEnded game_copy of
                      (r, g1) \<Rightarrow> Inr (Some (7 / 10 * x + 3 / 10 * r), g1)))
            else Inr (v, game_copy)) of
        Inl e \<Rightarrow> (Some e, t)
      | Inr (v1, g1) \<Rightarrow>
          backpropagate (player_to_start g1)
            (case Es t s of Some r \<Rightarrow> Some r | None \<Rightarrow> v1) t path)"

subsection \<open>search\<close>

text \<open>
  One simulation on the tree \<open>t\<close>, from the game \<open>root_game\<close> held by the game wrapper and
  the encoding \<open>state\<close>. The result is \<open>None\<close> when a loop runs forever, else the
  exception that left the call, if any, and the tree as the call left it. Without
  \<open>create_copy\<close> the name \<open>game_copy\<close> is unbound where it is first read.
\<close>

definition search ::
  "('c, 'h, 'e) engine \<Rightarrow> ('e \<Rightarrow> (act \<Rightarrow> real) \<times> real) \<Rightarrow> real \<Rightarrow> ('c, 'h) game
     \<Rightarrow> (nat \<Rightarrow> nat) \<Rightarrow> 'e tree \<Rightarrow> 'e \<Rightarrow> bool \<Rightarrow> (exn option \<times> 'e tree) option" where
  "search eng predict cpuct root_game rnd t state create_copy =
     (if \<not> create_copy then Some (Some UnboundLocalError, t)
      else
        (case cloneAndRandomize rnd 0 root_game of
           (game_copy, k) \<Rightarrow>
             (case select eng cpuct t game_copy (stringRepresentation state) state [] of
                None \<Rightarrow> None
              | Some (Inl e) \<Rightarrow> Some (Some e, t)
              | Some (Inr (g, s, next_s, path)) \<Rightarrow>
                  (case cache_outcome t g s of
                     (t1, g1) \<Rightarrow>
                       (case expand eng predict t1 g1 s next_s of
                          (Some e, t2, v) \<Rightarrow> Some (Some e, t2)
                        | (None, t2, v) \<Rightarrow>
                            (case simulate eng t2 rnd k g1 s of
                               None \<Rightarrow> None
                             | Some (Inl e) \<Rightarrow> Some (Some e, t2)
                             | Some (Inr (g2, s2)) \<Rightarrow> Some (finish t2 g2 s2 v path)))))))"

subsection \<open>getActionProb\<close>

record args =
  numMCTSSims :: nat
  cpuct :: real

text \<open>Simulation \<open>i\<close> draws from the sequence \<open>rnds i\<close>.\<close>

fun simulations ::
  "('c, 'h, 'e) engine \<Rightarrow> ('e \<Rightarrow> (act \<Rightarrow> real) \<times> real) \<Rightarrow> real \<Rightarrow> ('c, 'h) game
     \<Rightarrow> (nat \<Rightarrow> nat \<Rightarrow> nat) \<Rightarrow> 'e \<Rightarrow> nat \<Rightarrow> nat \<Rightarrow> 'e tree \<Rightarrow> (exn option \<times> 'e tree) option" where
  "simulations eng predict c root_game rnds state i 0 t = Some (None, t)"
| "simulations eng predict c root_game rnds state i (Suc n) t =
     (case search eng predict c root_game (rnds i) t state True of
        None \<Rightarrow> None
      | Some (Some e, t1) \<Rightarrow> Some (Some e, t1)
      | Some (None, t1) \<Rightarrow> simulations eng predict c root_game rnds state (Suc i) n t1)"






section \<open>A small rule engine for concrete runs\<close>

text \<open>
  \<open>quiet\<close> has no playable card, no attack and no hero power: the only legal move is
  to end the turn, and the third turn ends the game with a win of the first seat.
  \<open>picky\<close> offers the one hand card with one target and rejects the play with
  InvalidAction; \<open>stubborn\<close> also refuses to end a turn. The oracle \<open>flat\<close>
  gives every action the raw prior 0 and every state the value -1/2; the random source
  \<open>zero_draws\<close> always draws 0.
\<close>


definition quiet :: "(nat, unit, int) engine" where
  "quiet =
     \<lparr>is_playable = (\<lambda>g c. False), requires_target = (\<lambda>g c. False),
      must_choose_one = (\<lambda>g c. False), targets = (\<lambda>g c. []),
      choose_cards = (\<lambda>g c. []), choose_targets = (\<lambda>g c. []),
      can_attack = (\<lambda>g c. False), attack_targets = (\<lambda>g c. []),
      is_usable = (\<lambda>g c. False), play_targets = (\<lambda>g c. []),
      play = (\<lambda>g c t ch. (None, g)), attack = (\<lambda>g c t. (None, g)),
      use = (\<lambda>g c t. (None, g)),
      end_turn = (\<lambda>g.
        if turn g < 2 then (None, g\<lparr>turn := turn g + 1, current := other (current g)\<rparr>)
        else (Some GameOver,
              g\<lparr>turn := turn g + 1, ended := True,
                player1 := (player1 g)\<lparr>playstate := 4\<rparr>,
                player2 := (player2 g)\<lparr>playstate := 5\<rparr>\<rparr>)),
      choose_card = (\<lambda>g c. (None, g)),
      getState = turn\<rparr>"

definition bare_player :: "nat player" where
  "bare_player = \<lparr>hand = [], deck = [], field = [], hero = 0, power = 1, choice = None, playstate = 1\<rparr>"

definition start_game :: "(nat, unit) game" where
  "start_game = \<lparr>player1 = bare_player, player2 = bare_player, current = First,
     player_to_start = First, ended = False, turn = 1, current_decay = 1 / 100, hidden = ()\<rparr>"

definition armed_game :: "(nat, unit) game" where
  "armed_game = start_game\<lparr>player1 := bare_player\<lparr>hand := [7]\<rparr>\<rparr>"

section \<open>Definitions for the statements and the proofs\<close>

text \<open>
  The score as the specification words it, over the mean value \<open>Q\<close>, the prior \<open>P\<close>,
  the node count \<open>N\<close> and the edge count \<open>Na\<close> of one state: with a value for the
  edge, \<open>Q + c * P * sqrt N / (1 + Na)\<close>, else \<open>c * P * sqrt (N + EPS)\<close>.
\<close>

definition U_spec :: "(act \<rightharpoonup> real) \<Rightarrow> (act \<Rightarrow> real) \<Rightarrow> nat \<Rightarrow> (act \<rightharpoonup> nat) \<Rightarrow> real \<Rightarrow> act \<Rightarrow> real" where
  "U_spec Q P N Na c a =
     (case Q a of
        Some q \<Rightarrow> q + c * P a * sqrt (real N) / (1 + real (case Na a of Some k \<Rightarrow> k | None \<Rightarrow> 0))
      | None \<Rightarrow> c * P a * sqrt (real N + EPS))"

text \<open>
  The invariant of the scan over the cells \<open>pre\<close> seen so far: nothing legal was seen
  and the accumulator is untouched, or it holds a legal cell with its score, every legal
  cell before it scores less and every legal cell after it scores no more.
\<close>

definition first_best :: "(act \<Rightarrow> real) \<Rightarrow> mask \<Rightarrow> act list \<Rightarrow> real option \<times> act option \<Rightarrow> bool" where
  "first_best U valids pre acc =
     ((acc = (None, None) \<and> (\<forall>b \<in> set pre. \<not> valids b))
      \<or> (\<exists>a ys zs. acc = (Some (U a), Some a) \<and> valids a \<and> pre = ys @ a # zs
            \<and> (\<forall>b \<in> set ys. valids b \<longrightarrow> U b < U a)
            \<and> (\<forall>b \<in> set zs. valids b \<longrightarrow> U b \<le> U a)))"


text \<open>The oracle, the masks, priors, games and trees of the concrete runs.\<close>

definition flat :: "int \<Rightarrow> (act \<Rightarrow> real) \<times> real" where
  "flat s = (\<lambda>a. 0, - 1 / 2)"

definition only_end_turn :: mask where
  "only_end_turn = (\<lambda>_. False)((19, 1) := True)"

definition prior1 :: "act \<Rightarrow> real" where
  "prior1 = (\<lambda>a. masked (\<lambda>a. 0) only_end_turn (1 / 100) a
                  / sum_list (map (masked (\<lambda>a. 0) only_end_turn (1 / 100)) grid))"

definition tree1 :: "int tree" where
  "tree1 = init_tree\<lparr>Ps := [1 \<mapsto> prior1], Vs := [1 \<mapsto> only_end_turn], Ns := [1 \<mapsto> 0]\<rparr>"

definition turn2 :: "(nat, unit) game" where
  "turn2 = start_game\<lparr>turn := 2, current := Second\<rparr>"

definition turn3 :: "(nat, unit) game" where
  "turn3 = start_game\<lparr>turn := 3, current := Second, ended := True,
     player1 := bare_player\<lparr>playstate := 4\<rparr>, player2 := bare_player\<lparr>playstate := 5\<rparr>\<rparr>"

definition tree2 :: "int tree" where
  "tree2 = init_tree\<lparr>Ps := [1 \<mapsto> prior1, 2 \<mapsto> prior1],
                      Vs := [1 \<mapsto> only_end_turn, 2 \<mapsto> only_end_turn],
                      Ns := [1 \<mapsto> 0, 2 \<mapsto> 0],
                      Nsa := [(1, (19, 1)) \<mapsto> 1],
                      Qsa := [(1, (19, 1)) \<mapsto> 13 / 40]\<rparr>"

definition tree1_expanded :: "int tree" where
  "tree1_expanded = init_tree\<lparr>Ps := [1 \<mapsto> prior1, 2 \<mapsto> prior1],
                      Vs := [1 \<mapsto> only_end_turn, 2 \<mapsto> only_end_turn],
                      Ns := [1 \<mapsto> 0, 2 \<mapsto> 0]\<rparr>"

definition picky :: "(nat, unit, int) engine" where
  "picky = quiet\<lparr>is_playable := (\<lambda>g c. True), requires_target := (\<lambda>g c. True),
                  targets := (\<lambda>g c. [3]),
                  play := (\<lambda>g c t ch. (Some InvalidAction, g))\<rparr>"

definition stubborn :: "(nat, unit, int) engine" where
  "stubborn = picky\<lparr>end_turn := (\<lambda>g. (Some InvalidAction, g))\<rparr>"

definition two_moves :: mask where
  "two_moves = (\<lambda>_. False)((0, 0) := True, (19, 1) := True)"

definition prior2 :: "act \<Rightarrow> real" where
  "prior2 = (\<lambda>a. masked (\<lambda>a. 0) two_moves (1 / 100) a
                  / sum_list (map (masked (\<lambda>a. 0) two_moves (1 / 100)) grid))"

definition armed_turn2 :: "(nat, unit) game" where
  "armed_turn2 = armed_game\<lparr>turn := 2, current := Second\<rparr>"

definition armed_turn3 :: "(nat, unit) game" where
  "armed_turn3 = armed_game\<lparr>turn := 3, current := Second, ended := True,
     player1 := bare_player\<lparr>hand := [7], playstate := 4\<rparr>,
     player2 := bare_player\<lparr>playstate := 5\<rparr>\<rparr>"

definition stree1 :: "int tree" where
  "stree1 = init_tree\<lparr>Ps := [1 \<mapsto> prior2], Vs := [1 \<mapsto> two_moves], Ns := [1 \<mapsto> 0]\<rparr>"

definition stree1_expanded :: "int tree" where
  "stree1_expanded = init_tree\<lparr>Ps := [1 \<mapsto> prior2, 2 \<mapsto> prior1],
                      Vs := [1 \<mapsto> two_moves, 2 \<mapsto> only_end_turn],
                      Ns := [1 \<mapsto> 0, 2 \<mapsto> 0]\<rparr>"

definition stree2 :: "int tree" where
  "stree2 = stree1_expanded\<lparr>Nsa := [(1, (0, 0)) \<mapsto> 1], Qsa := [(1, (0, 0)) \<mapsto> 13 / 40]\<rparr>"

definition stree3 :: "int tree" where
  "stree3 = stree1_expanded\<lparr>Nsa := [(1, (0, 0)) \<mapsto> 2, (2, (19, 1)) \<mapsto> 1],
                            Qsa := [(1, (0, 0)) \<mapsto> 11 / 20, (2, (19, 1)) \<mapsto> - (1 / 2)],
                            Es := [3 \<mapsto> 1]\<rparr>"

definition zero_draws :: "nat \<Rightarrow> nat \<Rightarrow> nat" where
  "zero_draws i k = 0"

definition tie_tree :: "int tree" where
  "tie_tree = init_tree\<lparr>Ps := [1 \<mapsto> (\<lambda>a. 1 / 2)], Ns := [1 \<mapsto> 0]\<rparr>"

section \<open>Supporting lemmas\<close>

subsection \<open>performAction and getNextState\<close>

lemma quiet_end_turn_start_game:
  "performAction quiet (19, 1) start_game = (None, start_game\<lparr>turn := 2, current := Second\<rparr>)"
  by (simp add: performAction_def attempt_def quiet_def start_game_def other_def Let_def)

lemma quiet_bad_slot_start_game:
  "performAction quiet (0, 0) start_game = (None, start_game\<lparr>turn := 2, current := Second\<rparr>)"
  by (simp add: performAction_def attempt_def quiet_def start_game_def other_def Let_def
      current_player_def seated_def bare_player_def subscript_def)

text \<open>The handlers of performAction as a chain of tests on what the try block raised.\<close>

lemma performAction_if:
  "performAction eng a g =
     (if ended g then (None, g)
      else (let r = fst (attempt eng a g); g1 = snd (attempt eng a g) in
            if r = None \<or> r = Some GameOver then (None, g1)
            else if r = Some InvalidAction then end_turn eng g1
            else if r = Some IndexError then
              (if fst (end_turn eng g1) = Some GameOver then (None, snd (end_turn eng g1))
               else end_turn eng g1)
            else (r, g1)))"
proof (cases "attempt eng a g")
  case (Pair r g1)
  obtain r2 g2 where e: "end_turn eng g1 = (r2, g2)" by (cases "end_turn eng g1")
  show ?thesis
  proof (cases r)
    case None
    with Pair show ?thesis by (simp add: performAction_def)
  next
    case (Some x)
    show ?thesis
    proof (cases r2)
      case None
      with Pair Some e show ?thesis by (cases x) (simp_all add: performAction_def)
    next
      case (Some y)
      with Pair \<open>r = Some x\<close> e show ?thesis
        by (cases x; cases y) (simp_all add: performAction_def)
    qed
  qed
qed

subsection \<open>The shuffle keeps the cards\<close>

lemma shuffle_loop_mset:
  "i < length x \<Longrightarrow> mset (fst (shuffle_loop rnd i k x)) = mset x"
proof (induction i arbitrary: k x)
  case 0
  then show ?case by simp
next
  case (Suc i)
  let ?j = "rnd k mod (Suc i + 1)"
  have j: "?j < length x" using Suc.prems
  proof -
    have "?j < Suc i + 1" by simp
    with Suc.prems show ?thesis by linarith
  qed
  have "mset (x[Suc i := x ! ?j, ?j := x ! Suc i]) = mset x"
    using Suc.prems j by (simp add: mset_swap)
  moreover have "i < length (x[Suc i := x ! ?j, ?j := x ! Suc i])"
    using Suc.prems by simp
  ultimately show ?case
    using Suc.IH [of "x[Suc i := x ! ?j, ?j := x ! Suc i]" "Suc k"] by (simp add: Let_def)
qed

lemma shuffle_mset: "mset (fst (shuffle rnd k x)) = mset x"
proof (cases x)
  case Nil
  then show ?thesis by (simp add: shuffle_def)
next
  case (Cons a as)
  then show ?thesis by (simp add: shuffle_def shuffle_loop_mset)
qed

subsection \<open>The scan order\<close>

lemma grid_set: "set grid = {(a, b). a < 21 \<and> b < 18}"
  by (auto simp: grid_def)

lemma grid_distinct: "distinct grid"
  by (simp add: grid_def distinct_product)



subsection \<open>The selection scan\<close>

lemma ucb_value:
  assumes "Ps t s = Some p" and "Ns t s = Some n"
    and "has_key (Qsa t) (s, a) \<longrightarrow> has_key (Nsa t) (s, a)"
  shows "ucb t c s a = Inr (U_spec (\<lambda>a. Qsa t (s, a)) p n (\<lambda>a. Nsa t (s, a)) c a)"
  using assms by (auto simp: ucb_def U_spec_def has_key_def split: option.splits)

lemma first_best_skip:
  assumes "first_best U valids pre acc" and "\<not> valids x"
  shows "first_best U valids (pre @ [x]) acc"
proof -
  from assms(1) consider
    (none) "acc = (None, None)" "\<forall>b \<in> set pre. \<not> valids b"
    | (some) a ys zs where "acc = (Some (U a), Some a)" "valids a" "pre = ys @ a # zs"
        "\<forall>b \<in> set ys. valids b \<longrightarrow> U b < U a" "\<forall>b \<in> set zs. valids b \<longrightarrow> U b \<le> U a"
    unfolding first_best_def by blast
  then show ?thesis
  proof cases
    case none
    with assms(2) show ?thesis by (simp add: first_best_def)
  next
    case some
    have "pre @ [x] = ys @ a # (zs @ [x])" using some(3) by simp
    moreover have "\<forall>b \<in> set (zs @ [x]). valids b \<longrightarrow> U b \<le> U a"
      using some(5) assms(2) by auto
    ultimately show ?thesis unfolding first_best_def using some(1,2,4) by blast
  qed
qed

lemma first_best_keep:
  assumes "first_best U valids pre (Some c', ba)" and "valids x" and "\<not> U x > c'"
  shows "first_best U valids (pre @ [x]) (Some c', ba)"
proof -
  from assms(1) obtain a ys zs where
    some: "(Some c', ba) = (Some (U a), Some a)" "valids a" "pre = ys @ a # zs"
      "\<forall>b \<in> set ys. valids b \<longrightarrow> U b < U a" "\<forall>b \<in> set zs. valids b \<longrightarrow> U b \<le> U a"
    unfolding first_best_def by blast
  have "pre @ [x] = ys @ a # (zs @ [x])" using some(3) by simp
  moreover have "\<forall>b \<in> set (zs @ [x]). valids b \<longrightarrow> U b \<le> U a"
    using some(1,5) assms(3) by auto
  ultimately show ?thesis unfolding first_best_def using some(1,2,4) by blast
qed

lemma first_best_take:
  assumes "first_best U valids pre (cb, ba)" and "valids x"
    and "case cb of None \<Rightarrow> True | Some c' \<Rightarrow> U x > c'"
  shows "first_best U valids (pre @ [x]) (Some (U x), Some x)"
proof -
  have "\<forall>b \<in> set pre. valids b \<longrightarrow> U b < U x"
  proof (cases cb)
    case None
    with assms(1) have "\<forall>b \<in> set pre. \<not> valids b" unfolding first_best_def by auto
    then show ?thesis by simp
  next
    case (Some c')
    with assms(1) obtain a ys zs where
      some: "(cb, ba) = (Some (U a), Some a)" "pre = ys @ a # zs"
        "\<forall>b \<in> set ys. valids b \<longrightarrow> U b < U a" "\<forall>b \<in> set zs. valids b \<longrightarrow> U b \<le> U a"
      unfolding first_best_def by blast
    have lt: "U a < U x" using assms(3) some(1) by simp
    show ?thesis
    proof (intro ballI impI)
      fix b assume b: "b \<in> set pre" "valids b"
      from b(1) some(2) consider "b \<in> set ys" | "b = a" | "b \<in> set zs" by auto
      then show "U b < U x"
      proof cases
        case 1 with some(3) b(2) lt show ?thesis by force
      next
        case 2 with lt show ?thesis by simp
      next
        case 3 with some(4) b(2) lt show ?thesis by force
      qed
    qed
  qed
  then have "(Some (U x), Some x) = (Some (U x), Some x) \<and> valids x \<and> pre @ [x] = pre @ x # []
      \<and> (\<forall>b \<in> set pre. valids b \<longrightarrow> U b < U x)
      \<and> (\<forall>b \<in> set ([]::act list). valids b \<longrightarrow> U b \<le> U x)"
    using assms(2) by simp
  then show ?thesis unfolding first_best_def by blast
qed

lemma scan_first_best:
  assumes "\<forall>b \<in> set as. valids b \<longrightarrow> ucb t c s b = Inr (U b)"
    and "first_best U valids pre acc"
  shows "\<exists>acc'. scan t c s valids as acc = Inr acc' \<and> first_best U valids (pre @ as) acc'"
  using assms
proof (induction as arbitrary: pre acc)
  case Nil
  then show ?case by simp
next
  case (Cons x as)
  obtain cb ba where acc: "acc = (cb, ba)" by (cases acc)
  have rest: "\<forall>b \<in> set as. valids b \<longrightarrow> ucb t c s b = Inr (U b)"
    using Cons.prems(1) by simp
  show ?case
  proof (cases "valids x")
    case False
    have "first_best U valids (pre @ [x]) acc"
      using first_best_skip [of U valids pre acc x] Cons.prems(2) False by simp
    from Cons.IH [OF rest this] False acc
    show ?thesis by simp
  next
    case True
    then have u: "ucb t c s x = Inr (U x)" using Cons.prems(1) by simp
    show ?thesis
    proof (cases "case cb of None \<Rightarrow> True | Some c' \<Rightarrow> U x > c'")
      case better: True
      have "first_best U valids (pre @ [x]) (Some (U x), Some x)"
        using first_best_take [of U valids pre cb ba x] Cons.prems(2) acc True better by simp
      from Cons.IH [OF rest this] acc True u better
      show ?thesis by simp
    next
      case worse: False
      then obtain c' where c': "cb = Some c'" "\<not> U x > c'" by (cases cb) auto
      have "first_best U valids (pre @ [x]) (Some c', ba)"
        using first_best_keep [of U valids pre c' ba x] Cons.prems(2) acc True c' by simp
      from Cons.IH [OF rest this] acc True u worse c'
      show ?thesis by simp
    qed
  qed
qed

subsection \<open>The masked prior\<close>

lemma sum_list_pos_member:
  fixes xs :: "real list"
  assumes "\<forall>x \<in> set xs. 0 \<le> x" and "y \<in> set xs" and "0 < y"
  shows "0 < sum_list xs"
  using assms
proof (induction xs)
  case Nil
  then show ?case by simp
next
  case (Cons x xs)
  have nn: "0 \<le> sum_list xs" using Cons.prems(1) by (simp add: sum_list_nonneg)
  show ?case
  proof (cases "y = x")
    case True
    with Cons.prems(3) nn show ?thesis by simp
  next
    case False
    with Cons.prems have "0 < sum_list xs" using Cons.IH by simp
    moreover have "0 \<le> x" using Cons.prems(1) by simp
    ultimately show ?thesis by simp
  qed
qed

lemma sum_list_divide:
  fixes f :: "'a \<Rightarrow> real"
  shows "sum_list (map (\<lambda>a. f a / c) xs) = sum_list (map f xs) / c"
  by (induction xs) (simp_all add: add_divide_distrib)

lemma masked_legal: "valids a \<Longrightarrow> masked p valids decay a = p a + decay"
  by (simp add: masked_def)

lemma masked_illegal: "\<not> valids a \<Longrightarrow> masked p valids decay a = 0"
  by (simp add: masked_def)

lemma masked_sum_pos:
  assumes "\<forall>a \<in> set grid. 0 \<le> p a" and "0 < decay" and "\<exists>a \<in> set grid. valids a"
  shows "0 < sum_list (map (masked p valids decay) grid)"
proof -
  from assms(3) obtain a where a: "a \<in> set grid" "valids a" by blast
  have "\<forall>x \<in> set (map (masked p valids decay) grid). 0 \<le> x"
  proof
    fix x assume "x \<in> set (map (masked p valids decay) grid)"
    then obtain b where b: "b \<in> set grid" "x = masked p valids decay b" by auto
    show "0 \<le> x"
    proof (cases "valids b")
      case True
      with b assms(1,2) show ?thesis by (simp add: masked_legal add_nonneg_nonneg)
    next
      case False
      with b show ?thesis by (simp add: masked_illegal)
    qed
  qed
  moreover have "masked p valids decay a \<in> set (map (masked p valids decay) grid)"
    using a(1) by simp
  moreover have "0 < masked p valids decay a"
    using a assms(1,2) by (simp add: masked_legal add_nonneg_pos)
  ultimately show ?thesis by (rule sum_list_pos_member)
qed

lemma masked_prior_props:
  assumes nn: "\<forall>a \<in> set grid. 0 \<le> p a" and d: "0 < decay" and v: "\<exists>a \<in> set grid. valids a"
  defines "S \<equiv> sum_list (map (masked p valids decay) grid)"
  shows "masked_prior p valids decay = Some (\<lambda>a. masked p valids decay a / S)"
    and "0 < S"
    and "sum_list (map (\<lambda>a. masked p valids decay a / S) grid) = 1"
    and "sum_list (map (\<lambda>a. masked p valids decay a / S) (filter valids grid)) = 1"
proof -
  show pos: "0 < S" unfolding S_def by (rule masked_sum_pos [OF nn d v])
  then show "masked_prior p valids decay = Some (\<lambda>a. masked p valids decay a / S)"
    by (simp add: masked_prior_def S_def Let_def)
  show one: "sum_list (map (\<lambda>a. masked p valids decay a / S) grid) = 1"
    using pos by (simp add: sum_list_divide S_def)
  have "sum_list (map (\<lambda>a. masked p valids decay a / S) (filter valids grid))
          = sum_list (map (\<lambda>a. masked p valids decay a / S) grid)"
    by (rule sum_list_map_filter) (simp add: masked_illegal)
  with one show "sum_list (map (\<lambda>a. masked p valids decay a / S) (filter valids grid)) = 1"
    by simp
qed


subsection \<open>The visit counts and their argmax\<close>









subsection \<open>Unfolding the loops; the runs of the quiet engine\<close>

lemma select_stop:
  "\<not> (\<not> has_key (Es t) s \<and> has_key (Ps t) s \<and> \<not> ended g)
   \<Longrightarrow> select eng c t g s ns path = Some (Inr (g, s, ns, path))"
  by (subst select.simps) auto

lemma simulate_stop:
  "\<not> (\<not> has_key (Es t) s \<and> \<not> ended g) \<Longrightarrow> simulate eng t rnd k g s = Some (Inr (g, s))"
  by (subst simulate.simps) auto

lemma scan_filter:
  "scan t c s valids as acc = scan t c s (\<lambda>_. True) (filter valids as) acc"
  by (induction as arbitrary: acc) (auto split: sum.splits)

lemma best_action_filter:
  "best_action t c s valids = (case scan t c s (\<lambda>_. True) (filter valids grid) (None, None) of
        Inl e \<Rightarrow> Inl e | Inr (cur_best, best_act) \<Rightarrow> Inr best_act)"
  by (simp add: best_action_def scan_filter [of t c s valids grid])

lemma quiet_moves:
  "choice (current_player g) = None \<Longrightarrow> hand (current_player g) = [] \<Longrightarrow> field (current_player g) = []
   \<Longrightarrow> getValidMoves quiet g = Inr only_end_turn"
  by (simp add: getValidMoves_def quiet_def only_end_turn_def)

lemma only_end_turn_cells: "filter only_end_turn grid = [(19, 1)]"
  by code_simp

lemma prior1_Some: "masked_prior (\<lambda>a. 0) only_end_turn (1 / 100) = Some prior1"
proof -
  have "\<exists>a \<in> set grid. only_end_turn a"
    by (rule bexI [of _ "(19, 1)"]) (simp_all add: only_end_turn_def grid_set)
  from masked_prior_props(1) [of "\<lambda>a. 0" "1 / 100" only_end_turn, OF _ _ this]
  show ?thesis by (simp add: prior1_def)
qed

lemma quiet_next1: "getNextState quiet 1 (19, 1) start_game = (Inr (2, - 1), turn2)"
  by (simp add: getNextState_def performAction_if attempt_def quiet_def start_game_def turn2_def other_def Let_def)

lemma quiet_next2: "getNextState quiet 1 (19, 1) turn2 = (Inr (3, - 1), turn3)"
  by (simp add: getNextState_def performAction_if attempt_def quiet_def start_game_def turn2_def turn3_def other_def Let_def)

lemma clone_start: "cloneAndRandomize rnd 0 start_game = (start_game, 0)"
  by (simp add: cloneAndRandomize_def opponent_def seated_def other_def start_game_def bare_player_def
      shuffle_def Let_def)

lemma clone_noop:
  "hand (opponent g) = [] \<Longrightarrow> deck (opponent g) = [] \<Longrightarrow> cloneAndRandomize rnd 0 g = (g, 0)"
  by (cases "current g") (simp_all add: cloneAndRandomize_def opponent_def seated_def other_def shuffle_def Let_def)

lemma moves_start: "getValidMoves quiet start_game = Inr only_end_turn"
  by (rule quiet_moves) (simp_all add: start_game_def current_player_def seated_def bare_player_def)

lemma moves_turn2: "getValidMoves quiet turn2 = Inr only_end_turn"
  by (rule quiet_moves) (simp_all add: turn2_def start_game_def current_player_def seated_def bare_player_def)

lemma rollout_from_start:
  "\<not> has_key (Es t) 1 \<Longrightarrow> \<not> has_key (Es t) 2 \<Longrightarrow> simulate quiet t rnd k start_game 1 = Some (Inr (turn3, 3))"
  apply (subst simulate.simps)
  apply (simp add: moves_start only_end_turn_cells quiet_next1 stringRepresentation_def
      start_game_def [THEN arg_cong, of ended])
  apply (subst simulate.simps)
  apply (simp add: moves_turn2 only_end_turn_cells quiet_next2 stringRepresentation_def
      turn2_def [THEN arg_cong, of ended] start_game_def [THEN arg_cong, of ended])
  apply (subst simulate.simps)
  apply (simp add: turn3_def)
  done

lemma tree1_keys:
  "has_key (Es tree1) s = False" "has_key (Ps tree1) s = (s = 1)"
  "has_key (Es init_tree) s = False" "has_key (Ps init_tree) s = False"
  by (simp_all add: tree1_def init_tree_def has_key_def)

lemma start_game_fields:
  "current_decay start_game = 1 / 100" "current start_game = First"
  "player_to_start start_game = First" "ended start_game = False" "turn start_game = 1"
  by (simp_all add: start_game_def)

lemma turn2_fields:
  "current_decay turn2 = 1 / 100" "current turn2 = Second"
  "player_to_start turn2 = First" "ended turn2 = False" "turn turn2 = 2"
  by (simp_all add: turn2_def start_game_def)

lemma turn3_fields:
  "player_to_start turn3 = First" "ended turn3 = True" "turn turn3 = 3"
  by (simp_all add: turn3_def start_game_def)

lemma expand_start:
  "expand quiet flat init_tree start_game 1 1 = (None, tree1, Some (- (1 / 2)))"
  by (simp add: expand_def flat_def moves_start prior1_Some tree1_def init_tree_def Let_def
      start_game_fields has_key_def)

lemma ended_turn3: "getGameEnded turn3 = (1, turn3)"
  by (simp add: getGameEnded_def turn3_def start_game_def seated_def)

lemma quiet_search1:
  "search quiet flat 1 start_game (\<lambda>k. 0) init_tree 1 True = Some (None, tree1)"
proof -
  have sel: "select quiet 1 init_tree start_game 1 1 [] = Some (Inr (start_game, 1, 1, []))"
    by (rule select_stop) (simp add: tree1_keys)
  have ne: "\<not> ended start_game" by (simp add: start_game_def)
  have roll: "simulate quiet tree1 (\<lambda>k. 0) 0 start_game 1 = Some (Inr (turn3, 3))"
    by (rule rollout_from_start) (simp_all add: tree1_keys)
  have fin: "finish tree1 turn3 3 (Some (- (1 / 2))) [] = (None, tree1)"
    by (simp add: finish_def tree1_keys ended_turn3 turn3_fields)
  show ?thesis
    by (simp add: search_def clone_start stringRepresentation_def sel ne cache_outcome_def
        expand_start roll fin)
qed

lemma best_tree1: "best_action tree1 1 1 only_end_turn = Inr (Some (19, 1))"
  by (simp add: best_action_filter only_end_turn_cells ucb_def has_key_def tree1_def init_tree_def)

lemma rollout_from_turn2:
  "\<not> has_key (Es t) 2 \<Longrightarrow> simulate quiet t rnd k turn2 2 = Some (Inr (turn3, 3))"
  apply (subst simulate.simps)
  apply (simp add: moves_turn2 only_end_turn_cells quiet_next2 stringRepresentation_def turn2_fields)
  apply (subst simulate.simps)
  apply (simp add: turn3_fields)
  done

lemma select_tree1:
  "select quiet 1 tree1 start_game 1 1 [] = Some (Inr (turn2, 2, 2, [(1, (19, 1), First)]))"
  apply (subst select.simps)
  apply (simp add: tree1_keys start_game_fields moves_start best_tree1 quiet_next1
      stringRepresentation_def)
  apply (rule select_stop)
  apply (simp add: tree1_keys)
  done

lemma expand_turn2:
  "expand quiet flat tree1 turn2 2 2 = (None, tree1_expanded, Some (1 / 2))"
  by (simp add: expand_def flat_def moves_turn2 prior1_Some tree1_def tree1_expanded_def
      init_tree_def Let_def turn2_fields fun_upd_twist has_key_def)

lemma finish_tree2:
  "finish tree1_expanded turn3 3 (Some (1 / 2)) [(1, (19, 1), First)] = (None, tree2)"
  by (simp add: finish_def has_key_def ended_turn3 turn3_fields backprop_step_def Let_def
      tree1_expanded_def tree2_def init_tree_def)

lemma quiet_search2:
  "search quiet flat 1 start_game (\<lambda>k. 0) tree1 1 True = Some (None, tree2)"
proof -
  have roll: "simulate quiet tree1_expanded (\<lambda>k. 0) 0 turn2 2 = Some (Inr (turn3, 3))"
    by (rule rollout_from_turn2) (simp add: tree1_expanded_def init_tree_def has_key_def)
  show ?thesis
    by (simp add: search_def clone_start stringRepresentation_def select_tree1 turn2_fields
        cache_outcome_def expand_turn2 roll finish_tree2 del: One_nat_def)
qed

subsection \<open>Which exceptions leave which function\<close>

lemma sqrt_EPS: "sqrt EPS = 1 / 10000"
  unfolding EPS_def by (rule real_sqrt_unique) (simp_all add: power2_eq_square)

lemma performAction_raises:
  assumes "performAction eng a g = (Some e, g')"
  shows "e = InvalidAction \<longrightarrow> (\<exists>g1. fst (end_turn eng g1) = Some InvalidAction)"
proof
  assume e: "e = InvalidAction"
  let ?r = "fst (attempt eng a g)" and ?g1 = "snd (attempt eng a g)"
  from assms have ne: "\<not> ended g" by (auto simp: performAction_if)
  from assms ne e have "end_turn eng ?g1 = (Some InvalidAction, g')"
    by (auto simp: performAction_if Let_def split: if_splits)
  then have "fst (end_turn eng ?g1) = Some InvalidAction" by simp
  then show "\<exists>g1. fst (end_turn eng g1) = Some InvalidAction" ..
qed

lemma getNextState_raises:
  assumes "getNextState eng p a g = (Inl e, g')"
  shows "e \<noteq> GameOver \<and> (e = InvalidAction \<longrightarrow> (\<exists>g1. fst (end_turn eng g1) = Some InvalidAction))"
proof -
  obtain r g1 where pa: "performAction eng a g = (r, g1)" by (cases "performAction eng a g")
  with assms have r: "r = Some e" "e \<noteq> GameOver"
    by (auto simp: getNextState_def split: option.splits exn.splits)
  with pa performAction_raises [of eng a g e g1] show ?thesis by simp
qed

lemma getNextState_never_GameOver: "fst (getNextState eng p a g) \<noteq> Inl GameOver"
  using getNextState_raises [of eng p a g GameOver "snd (getNextState eng p a g)"]
  by (cases "getNextState eng p a g") auto

lemma mark_targets_raises: "mark_targets r n m = Inl e \<Longrightarrow> e = IndexError"
  by (auto simp: mark_targets_def split: if_splits)

lemma mark_row_raises: "mark_row r m = Inl e \<Longrightarrow> e = IndexError"
  by (auto simp: mark_row_def split: if_splits)

lemma hand_moves_raises: "hand_moves eng g i cs m = Inl e \<Longrightarrow> e = IndexError"
  by (induction cs arbitrary: i m)
     (auto split: if_splits sum.splits dest: mark_targets_raises mark_row_raises)

lemma field_moves_raises: "field_moves eng g i ms m = Inl e \<Longrightarrow> e = IndexError"
  by (induction ms arbitrary: i m)
     (auto split: if_splits sum.splits dest: mark_targets_raises)

lemma getValidMoves_raises: "getValidMoves eng g = Inl e \<Longrightarrow> e = IndexError"
  by (auto simp: getValidMoves_def Let_def split: option.splits sum.splits if_splits
      dest: mark_targets_raises mark_row_raises hand_moves_raises field_moves_raises)

lemma ucb_raises: "ucb t c s a = Inl e \<Longrightarrow> e = KeyError"
  by (auto simp: ucb_def split: if_splits option.splits)

lemma scan_raises: "scan t c s valids as acc = Inl e \<Longrightarrow> e = KeyError"
proof (induction as arbitrary: acc)
  case Nil
  then show ?case by simp
next
  case (Cons a as)
  obtain cb ba where "acc = (cb, ba)" by (cases acc)
  with Cons show ?case
    by (auto split: if_splits sum.splits dest: ucb_raises)
qed

lemma best_action_raises: "best_action t c s valids = Inl e \<Longrightarrow> e = KeyError"
  by (auto simp: best_action_def split: sum.splits dest: scan_raises)

lemma select_raises_aux:
  assumes "select eng c t g s ns path = Some r"
  shows "\<forall>e. r = Inl e \<longrightarrow>
         e \<noteq> GameOver \<and> (e = InvalidAction \<longrightarrow> (\<exists>g1. fst (end_turn eng g1) = Some InvalidAction))"
proof (rule select.raw_induct [where P = "\<lambda>eng c t g s ns path r. \<forall>e. r = Inl e \<longrightarrow>
         e \<noteq> GameOver \<and> (e = InvalidAction \<longrightarrow> (\<exists>g1. fst (end_turn eng g1) = Some InvalidAction))",
      OF _ assms], goal_cases)
  case (1 select eng cpuct t game_copy s next_s path r)
  note ih = "1"(1) and eq = "1"(2)
  show ?case
  proof (intro allI impI)
    fix e assume r: "r = Inl e"
    from eq r show "e \<noteq> GameOver
        \<and> (e = InvalidAction \<longrightarrow> (\<exists>g1. fst (end_turn eng g1) = Some InvalidAction))"
      by (auto split: if_splits sum.splits option.splits prod.splits
          dest: getValidMoves_raises best_action_raises getNextState_raises ih)
  qed
qed

lemma select_raises:
  "select eng c t g s ns path = Some (Inl e)
   \<Longrightarrow> e \<noteq> GameOver \<and> (e = InvalidAction \<longrightarrow> (\<exists>g1. fst (end_turn eng g1) = Some InvalidAction))"
  using select_raises_aux [of eng c t g s ns path "Inl e"] by simp

lemma simulate_raises_aux:
  assumes "simulate eng t rnd k g s = Some r"
  shows "\<forall>e. r = Inl e \<longrightarrow>
         e \<noteq> GameOver \<and> (e = InvalidAction \<longrightarrow> (\<exists>g1. fst (end_turn eng g1) = Some InvalidAction))"
proof (rule simulate.raw_induct [where P = "\<lambda>eng t rnd k g s r. \<forall>e. r = Inl e \<longrightarrow>
         e \<noteq> GameOver \<and> (e = InvalidAction \<longrightarrow> (\<exists>g1. fst (end_turn eng g1) = Some InvalidAction))",
      OF _ assms], goal_cases)
  case (1 simulate eng t rnd k game_copy s r)
  note ih = "1"(1) and eq = "1"(2)
  show ?case
  proof (intro allI impI)
    fix e assume r: "r = Inl e"
    from eq r show "e \<noteq> GameOver
        \<and> (e = InvalidAction \<longrightarrow> (\<exists>g1. fst (end_turn eng g1) = Some InvalidAction))"
      by (auto simp: Let_def split: if_splits sum.splits option.splits prod.splits
          dest: getValidMoves_raises getNextState_raises ih)
  qed
qed

lemma simulate_raises:
  "simulate eng t rnd k g s = Some (Inl e)
   \<Longrightarrow> e \<noteq> GameOver \<and> (e = InvalidAction \<longrightarrow> (\<exists>g1. fst (end_turn eng g1) = Some InvalidAction))"
  using simulate_raises_aux [of eng t rnd k g s "Inl e"] by simp

lemma expand_raises:
  "expand eng predict t g s ns = (Some e, t', v) \<Longrightarrow> e = IndexError \<or> e = NotANumber"
  by (auto simp: expand_def Let_def split: if_splits prod.splits sum.splits option.splits
      dest: getValidMoves_raises)

lemma backprop_step_raises:
  "backprop_step starter v t ele = (Some e, t') \<Longrightarrow> e = KeyError \<or> e = UnboundLocalError"
  by (auto simp: backprop_step_def Let_def split: prod.splits option.splits)

lemma backpropagate_raises:
  "backpropagate starter v t path = (Some e, t') \<Longrightarrow> e = KeyError \<or> e = UnboundLocalError"
proof (induction path arbitrary: t)
  case Nil
  then show ?case by simp
next
  case (Cons ele rest)
  obtain r t1 where b: "backprop_step starter v t ele = (r, t1)"
    by (cases "backprop_step starter v t ele")
  show ?case
  proof (cases r)
    case None
    with Cons b show ?thesis by simp
  next
    case (Some x)
    with Cons.prems b have "x = e" by simp
    with Some b backprop_step_raises [of starter v t ele e t1] show ?thesis by simp
  qed
qed

lemma finish_raises:
  "finish t g s v path = (Some e, t') \<Longrightarrow> e = KeyError \<or> e = UnboundLocalError"
  by (auto simp: finish_def split: if_splits option.splits prod.splits sum.splits
      dest: backpropagate_raises)

lemma search_raises:
  assumes "search eng predict c root_game rnd t state create_copy = Some (Some e, t')"
  shows "e \<noteq> GameOver \<and> (e = InvalidAction \<longrightarrow> (\<exists>g1. fst (end_turn eng g1) = Some InvalidAction))"
proof (cases create_copy)
  case False
  with assms show ?thesis by (simp add: search_def)
next
  case True
  obtain game_copy k where cl: "cloneAndRandomize rnd 0 root_game = (game_copy, k)"
    by (cases "cloneAndRandomize rnd 0 root_game")
  show ?thesis
  proof (cases "select eng c t game_copy (stringRepresentation state) state []")
    case None
    with assms True cl show ?thesis by (simp add: search_def)
  next
    case (Some r)
    show ?thesis
    proof (cases r)
      case (Inl x)
      with assms True cl Some have "x = e" by (simp add: search_def)
      with Some Inl select_raises [of eng c t game_copy "stringRepresentation state" state "[]" e]
      show ?thesis by simp
    next
      case (Inr q)
      obtain g s ns path where q: "q = (g, s, ns, path)" by (cases q)
      obtain t1 g1 where co: "cache_outcome t g s = (t1, g1)" by (cases "cache_outcome t g s")
      obtain r2 t2 v where ex2: "expand eng predict t1 g1 s ns = (r2, t2, v)"
        by (cases "expand eng predict t1 g1 s ns")
      have s1: "search eng predict c root_game rnd t state create_copy =
                  (case r2 of Some e \<Rightarrow> Some (Some e, t2)
                   | None \<Rightarrow> (case simulate eng t2 rnd k g1 s of None \<Rightarrow> None
                        | Some (Inl e) \<Rightarrow> Some (Some e, t2)
                        | Some (Inr (g2, s2)) \<Rightarrow> Some (finish t2 g2 s2 v path)))"
        using True cl Some Inr q co ex2 by (cases r2) (simp_all add: search_def)
      show ?thesis
      proof (cases r2)
        case (Some x)
        with s1 assms have "x = e" by simp
        with Some ex2 have "expand eng predict t1 g1 s ns = (Some e, t2, v)" by simp
        from expand_raises [OF this] show ?thesis by auto
      next
        case None
        show ?thesis
        proof (cases "simulate eng t2 rnd k g1 s")
          case None
          with s1 \<open>r2 = None\<close> assms show ?thesis by simp
        next
          case (Some r3)
          show ?thesis
          proof (cases r3)
            case (Inl x)
            with s1 \<open>r2 = None\<close> Some assms have "x = e" by simp
            with Some Inl simulate_raises [of eng t2 rnd k g1 s e] show ?thesis by simp
          next
            case (Inr q3)
            obtain g2 s2 where "q3 = (g2, s2)" by (cases q3)
            with s1 \<open>r2 = None\<close> Some Inr assms have "finish t2 g2 s2 v path = (Some e, t')"
              by simp
            from finish_raises [OF this] show ?thesis by auto
          qed
        qed
      qed
    qed
  qed
qed

subsection \<open>The runs of the picky and the stubborn engine\<close>

lemma armed_game_fields:
  "current_decay armed_game = 1 / 100" "current armed_game = First"
  "player_to_start armed_game = First" "ended armed_game = False" "turn armed_game = 1"
  "current_player armed_game = bare_player\<lparr>hand := [7]\<rparr>"
  "hand (opponent armed_game) = []" "deck (opponent armed_game) = []"
  by (simp_all add: armed_game_def start_game_def current_player_def opponent_def seated_def
      other_def bare_player_def)

lemma armed_turn2_fields:
  "current_decay armed_turn2 = 1 / 100" "current armed_turn2 = Second"
  "player_to_start armed_turn2 = First" "ended armed_turn2 = False" "turn armed_turn2 = 2"
  "current_player armed_turn2 = bare_player"
  by (simp_all add: armed_turn2_def armed_game_def start_game_def current_player_def seated_def)

lemma armed_turn3_fields:
  "player_to_start armed_turn3 = First" "ended armed_turn3 = True" "turn armed_turn3 = 3"
  by (simp_all add: armed_turn3_def armed_game_def start_game_def)

lemma picky_moves1: "getValidMoves picky armed_game = Inr two_moves"
  by (simp add: getValidMoves_def armed_game_fields bare_player_def picky_def quiet_def
      mark_targets_def two_moves_def fun_eq_iff)

lemma picky_moves2: "getValidMoves picky armed_turn2 = Inr only_end_turn"
  by (simp add: getValidMoves_def armed_turn2_fields bare_player_def picky_def quiet_def
      only_end_turn_def)

lemma two_moves_cells: "filter two_moves grid = [(0, 0), (19, 1)]"
  by code_simp

lemma two_moves_sum: "sum_list (map (masked (\<lambda>a. 0) two_moves (1 / 100)) grid) = 1 / 50"
  by code_simp

lemma prior2_Some: "masked_prior (\<lambda>a. 0) two_moves (1 / 100) = Some prior2"
  by (simp add: masked_prior_def prior2_def two_moves_sum)

lemma prior2_values: "prior2 (0, 0) = 1 / 2" "prior2 (19, 1) = 1 / 2"
  by (simp_all add: prior2_def two_moves_sum) (simp_all add: masked_def two_moves_def)

lemma picky_attempt: "attempt picky (0, 0) armed_game = (Some InvalidAction, armed_game)"
  by (simp add: attempt_def armed_game_fields bare_player_def picky_def quiet_def subscript_def)

lemma picky_end_turn1: "end_turn picky armed_game = (None, armed_turn2)"
  by (simp add: picky_def quiet_def armed_turn2_def armed_game_fields other_def)

lemma picky_next1: "getNextState picky 1 (0, 0) armed_game = (Inr (2, 1), armed_turn2)"
  by (simp add: getNextState_def performAction_if picky_attempt picky_end_turn1 armed_game_fields)
     (simp add: picky_def quiet_def armed_turn2_fields)

lemma picky_next2: "getNextState picky 1 (19, 1) armed_turn2 = (Inr (3, - 1), armed_turn3)"
  by (simp add: getNextState_def performAction_if attempt_def picky_def quiet_def
      armed_turn2_def armed_turn3_def armed_game_def start_game_def Let_def)

lemma clone_armed: "cloneAndRandomize rnd 0 armed_game = (armed_game, 0)"
  by (rule clone_noop) (simp_all add: armed_game_fields)

lemma ended_armed_turn3: "getGameEnded armed_turn3 = (1, armed_turn3)"
  by (simp add: getGameEnded_def armed_turn3_def armed_game_def start_game_def seated_def)

lemma picky_rollout2:
  "\<not> has_key (Es t) 2 \<Longrightarrow> simulate picky t rnd k armed_turn2 2 = Some (Inr (armed_turn3, 3))"
  apply (subst simulate.simps)
  apply (simp add: picky_moves2 only_end_turn_cells picky_next2 stringRepresentation_def
      armed_turn2_fields)
  apply (subst simulate.simps)
  apply (simp add: armed_turn3_fields)
  done

lemma picky_rollout1:
  "\<not> has_key (Es t) 1 \<Longrightarrow> \<not> has_key (Es t) 2
   \<Longrightarrow> simulate picky t (\<lambda>k. 0) 0 armed_game 1 = Some (Inr (armed_turn3, 3))"
  apply (subst simulate.simps)
  apply (simp add: picky_moves1 two_moves_cells picky_next1 stringRepresentation_def
      armed_game_fields)
  apply (rule picky_rollout2)
  apply simp
  done

lemma stree_keys:
  "has_key (Es init_tree) s = False" "has_key (Ps init_tree) s = False"
  "has_key (Es stree1) s = False" "has_key (Ps stree1) s = (s = 1)"
  "has_key (Es stree1_expanded) s = False"
  "has_key (Es stree2) s = False" "has_key (Ps stree2) s = (s = 1 \<or> s = 2)"
  by (auto simp: stree1_def stree1_expanded_def stree2_def init_tree_def has_key_def)

lemma picky_expand1:
  "expand picky flat init_tree armed_game 1 1 = (None, stree1, Some (- (1 / 2)))"
  by (simp add: expand_def flat_def picky_moves1 prior2_Some stree1_def init_tree_def Let_def
      armed_game_fields has_key_def)

lemma picky_search1:
  "search picky flat 1 armed_game (\<lambda>k. 0) init_tree 1 True = Some (None, stree1)"
proof -
  have sel: "select picky 1 init_tree armed_game 1 1 [] = Some (Inr (armed_game, 1, 1, []))"
    by (rule select_stop) (simp add: stree_keys)
  have roll: "simulate picky stree1 (\<lambda>k. 0) 0 armed_game 1 = Some (Inr (armed_turn3, 3))"
    by (rule picky_rollout1) (simp_all add: stree_keys)
  have fin: "finish stree1 armed_turn3 3 (Some (- (1 / 2))) [] = (None, stree1)"
    by (simp add: finish_def stree_keys ended_armed_turn3 armed_turn3_fields)
  show ?thesis
    by (simp add: search_def clone_armed stringRepresentation_def sel cache_outcome_def
        armed_game_fields picky_expand1 roll fin)
qed

lemma best_stree1: "best_action stree1 1 1 two_moves = Inr (Some (0, 0))"
  by (simp add: best_action_filter two_moves_cells ucb_def has_key_def stree1_def init_tree_def
      prior2_values del: One_nat_def)

lemma picky_select2:
  "select picky 1 stree1 armed_game 1 1 [] = Some (Inr (armed_turn2, 2, 2, [(1, (0, 0), First)]))"
  apply (subst select.simps)
  apply (simp add: stree_keys armed_game_fields picky_moves1 best_stree1 picky_next1
      stringRepresentation_def)
  apply (rule select_stop)
  apply (simp add: stree_keys)
  done

lemma picky_expand2:
  "expand picky flat stree1 armed_turn2 2 2 = (None, stree1_expanded, Some (1 / 2))"
  by (simp add: expand_def flat_def picky_moves2 prior1_Some stree1_def stree1_expanded_def
      init_tree_def Let_def armed_turn2_fields fun_upd_twist has_key_def)

lemma picky_finish2:
  "finish stree1_expanded armed_turn3 3 (Some (1 / 2)) [(1, (0, 0), First)] = (None, stree2)"
  by (simp add: finish_def has_key_def ended_armed_turn3 armed_turn3_fields backprop_step_def
      Let_def stree1_expanded_def stree2_def init_tree_def)

lemma picky_search2:
  "search picky flat 1 armed_game (\<lambda>k. 0) stree1 1 True = Some (None, stree2)"
proof -
  have roll: "simulate picky stree1_expanded (\<lambda>k. 0) 0 armed_turn2 2 = Some (Inr (armed_turn3, 3))"
    by (rule picky_rollout2) (simp add: stree_keys)
  show ?thesis
    by (simp add: search_def clone_armed stringRepresentation_def picky_select2
        armed_turn2_fields cache_outcome_def picky_expand2 roll picky_finish2)
qed

lemma best_stree2_root: "best_action stree2 1 1 two_moves = Inr (Some (0, 0))"
  by (simp add: best_action_filter two_moves_cells ucb_def has_key_def stree2_def
      stree1_expanded_def init_tree_def prior2_values sqrt_EPS del: One_nat_def)

lemma best_stree2_next: "best_action stree2 1 2 only_end_turn = Inr (Some (19, 1))"
  by (simp add: best_action_filter only_end_turn_cells ucb_def has_key_def stree2_def
      stree1_expanded_def init_tree_def)

lemma picky_select3:
  "select picky 1 stree2 armed_game 1 1 []
     = Some (Inr (armed_turn3, 3, 3, [(1, (0, 0), First), (2, (19, 1), Second)]))"
  apply (subst select.simps)
  apply (simp add: stree_keys armed_game_fields picky_moves1 best_stree2_root picky_next1
      stringRepresentation_def)
  apply (subst select.simps)
  apply (simp add: stree_keys armed_turn2_fields picky_moves2 best_stree2_next picky_next2
      stringRepresentation_def)
  apply (rule select_stop)
  apply (simp add: armed_turn3_fields)
  done

lemma picky_finish3:
  "finish (stree2\<lparr>Es := [3 \<mapsto> 1]\<rparr>) armed_turn3 3 None [(1, (0, 0), First), (2, (19, 1), Second)]
     = (None, stree3)"
  by (simp add: finish_def has_key_def armed_turn3_fields backprop_step_def
      Let_def stree1_expanded_def stree2_def stree3_def init_tree_def fun_upd_twist
      del: One_nat_def)

lemma picky_search3:
  "search picky flat 1 armed_game (\<lambda>k. 0) stree2 1 True = Some (None, stree3)"
proof -
  have co: "cache_outcome stree2 armed_turn3 3 = (stree2\<lparr>Es := [3 \<mapsto> 1]\<rparr>, armed_turn3)"
    by (simp add: cache_outcome_def armed_turn3_fields ended_armed_turn3)
       (simp add: stree2_def stree1_expanded_def init_tree_def)
  have ex: "expand picky flat (stree2\<lparr>Es := [3 \<mapsto> 1]\<rparr>) armed_turn3 3 3
              = (None, stree2\<lparr>Es := [3 \<mapsto> 1]\<rparr>, None)"
    by (simp add: expand_def has_key_def)
  have roll: "simulate picky (stree2\<lparr>Es := [3 \<mapsto> 1]\<rparr>) (\<lambda>k. 0) 0 armed_turn3 3
                = Some (Inr (armed_turn3, 3))"
    by (rule simulate_stop) (simp add: has_key_def)
  show ?thesis
    by (simp add: search_def clone_armed stringRepresentation_def picky_select3 co ex roll
        picky_finish3 del: One_nat_def)
qed

lemma stubborn_moves1: "getValidMoves stubborn armed_game = Inr two_moves"
  by (simp add: getValidMoves_def armed_game_fields bare_player_def stubborn_def picky_def
      quiet_def mark_targets_def two_moves_def fun_eq_iff)

lemma stubborn_next1:
  "getNextState stubborn 1 (0, 0) armed_game = (Inl InvalidAction, armed_game)"
  by (simp add: getNextState_def performAction_if attempt_def armed_game_fields bare_player_def
      stubborn_def picky_def quiet_def subscript_def Let_def)

lemma stubborn_expand1:
  "expand stubborn flat init_tree armed_game 1 1 = (None, stree1, Some (- (1 / 2)))"
  by (simp add: expand_def flat_def stubborn_moves1 prior2_Some stree1_def init_tree_def Let_def
      armed_game_fields has_key_def)

lemma stubborn_search1:
  "search stubborn flat 1 armed_game (\<lambda>k. 0) init_tree 1 True = Some (Some InvalidAction, stree1)"
proof -
  have sel: "select stubborn 1 init_tree armed_game 1 1 [] = Some (Inr (armed_game, 1, 1, []))"
    by (rule select_stop) (simp add: stree_keys)
  have roll: "simulate stubborn stree1 (\<lambda>k. 0) 0 armed_game 1 = Some (Inl InvalidAction)"
    by (subst simulate.simps)
       (simp add: stubborn_moves1 two_moves_cells stubborn_next1 stree_keys armed_game_fields)
  show ?thesis
    by (simp add: search_def clone_armed stringRepresentation_def sel cache_outcome_def
        armed_game_fields stubborn_expand1 roll)
qed

subsection \<open>The node counts are only ever set to zero\<close>

lemma zero_draws_fun: "zero_draws i = (\<lambda>k. 0)"
  by (simp add: zero_draws_def fun_eq_iff)

lemma quiet_two_runs:
  "simulations quiet flat 1 start_game zero_draws 1 0 2 init_tree = Some (None, tree2)"
  by (simp add: numeral_2_eq_2 zero_draws_fun quiet_search1 quiet_search2)

lemma backprop_step_Ns: "Ns (snd (backprop_step starter v t ele)) = Ns t"
  by (auto simp: backprop_step_def Let_def split: prod.splits option.splits)

lemma backpropagate_Ns: "Ns (snd (backpropagate starter v t path)) = Ns t"
proof (induction path arbitrary: t)
  case Nil
  then show ?case by simp
next
  case (Cons ele rest)
  obtain r t1 where b: "backprop_step starter v t ele = (r, t1)"
    by (cases "backprop_step starter v t ele")
  with backprop_step_Ns [of starter v t ele] have "Ns t1 = Ns t" by simp
  with Cons.IH [of t1] b show ?case by (cases r) simp_all
qed

lemma finish_Ns: "Ns (snd (finish t g s v path)) = Ns t"
  by (auto simp: finish_def backpropagate_Ns split: option.splits prod.splits)

lemma cache_outcome_Ns: "Ns (fst (cache_outcome t g s)) = Ns t"
  by (simp add: cache_outcome_def split: prod.splits)

lemma expand_Ns:
  "expand eng predict t g s ns = (r, t', v) \<Longrightarrow> Ns t' k = Ns t k \<or> Ns t' k = Some 0"
  by (auto simp: expand_def Let_def split: if_splits prod.splits sum.splits option.splits)

lemma search_Ns:
  assumes "search eng predict c root_game rnd t state create_copy = Some (r, t')"
  shows "Ns t' k = Ns t k \<or> Ns t' k = Some 0"
proof (cases create_copy)
  case False
  with assms show ?thesis by (simp add: search_def)
next
  case True
  obtain game_copy j where cl: "cloneAndRandomize rnd 0 root_game = (game_copy, j)"
    by (cases "cloneAndRandomize rnd 0 root_game")
  show ?thesis
  proof (cases "select eng c t game_copy (stringRepresentation state) state []")
    case None
    with assms True cl show ?thesis by (simp add: search_def)
  next
    case (Some q0)
    show ?thesis
    proof (cases q0)
      case (Inl x)
      with assms True cl Some show ?thesis by (simp add: search_def)
    next
      case (Inr q)
      obtain g s ns path where q: "q = (g, s, ns, path)" by (cases q)
      obtain t1 g1 where co: "cache_outcome t g s = (t1, g1)" by (cases "cache_outcome t g s")
      obtain r2 t2 v where ex2: "expand eng predict t1 g1 s ns = (r2, t2, v)"
        by (cases "expand eng predict t1 g1 s ns")
      have n1: "Ns t1 = Ns t" using cache_outcome_Ns [of t g s] co by simp
      have n2: "Ns t2 k = Ns t k \<or> Ns t2 k = Some 0" using expand_Ns [OF ex2, of k] n1 by simp
      have s1: "search eng predict c root_game rnd t state create_copy =
                  (case r2 of Some e \<Rightarrow> Some (Some e, t2)
                   | None \<Rightarrow> (case simulate eng t2 rnd j g1 s of None \<Rightarrow> None
                        | Some (Inl e) \<Rightarrow> Some (Some e, t2)
                        | Some (Inr (g2, s2)) \<Rightarrow> Some (finish t2 g2 s2 v path)))"
        using True cl Some Inr q co ex2 by (cases r2) (simp_all add: search_def)
      show ?thesis
      proof (cases r2)
        case (Some x)
        with s1 assms n2 show ?thesis by simp
      next
        case None
        show ?thesis
        proof (cases "simulate eng t2 rnd j g1 s")
          case None
          with s1 \<open>r2 = None\<close> assms show ?thesis by simp
        next
          case (Some r3)
          show ?thesis
          proof (cases r3)
            case (Inl x)
            with s1 \<open>r2 = None\<close> Some assms n2 show ?thesis by simp
          next
            case (Inr q3)
            obtain g2 s2 where "q3 = (g2, s2)" by (cases q3)
            with s1 \<open>r2 = None\<close> Some Inr assms have "finish t2 g2 s2 v path = (r, t')"
              by simp
            with finish_Ns [of t2 g2 s2 v path] have "Ns t' = Ns t2" by simp
            with n2 show ?thesis by simp
          qed
        qed
      qed
    qed
  qed
qed

subsection \<open>One backpropagation step in closed form\<close>

text \<open>
  On the first visit the edge count becomes 1 and the value is the signed \<open>x\<close> over 2;
  on a later visit the count \<open>n\<close> becomes \<open>n + 1\<close> and the divisor is \<open>n + 2\<close>.
\<close>

lemma backprop_step_first_visit:
  assumes "Nsa t (s, a) = None"
  shows "backprop_step starter (Some x) t (s, a, player) =
           (None, t\<lparr>Nsa := (Nsa t)((s, a) \<mapsto> 1),
                    Qsa := (Qsa t)((s, a) \<mapsto> (if player = starter then x else - x) / 2)\<rparr>)"
  using assms by (simp add: backprop_step_def Let_def)

lemma backprop_step_later_visit:
  assumes "Nsa t (s, a) = Some n" and "Qsa t (s, a) = Some q"
  shows "backprop_step starter (Some x) t (s, a, player) =
           (None, t\<lparr>Nsa := (Nsa t)((s, a) \<mapsto> n + 1),
                    Qsa := (Qsa t)((s, a) \<mapsto>
                      (real (n + 1) * q + (if player = starter then x else - x)) / (real (n + 1) + 1))\<rparr>)"
  using assms by (simp add: backprop_step_def Let_def)

lemma simulations_Ns:
  "simulations eng predict c root_game rnds state i n t = Some (r, t')
   \<Longrightarrow> Ns t' k = Ns t k \<or> Ns t' k = Some 0"
proof (induction n arbitrary: i t)
  case 0
  then show ?case by simp
next
  case (Suc n)
  show ?case
  proof (cases "search eng predict c root_game (rnds i) t state True")
    case None
    with Suc.prems show ?thesis by simp
  next
    case (Some q)
    obtain r1 t1 where q: "q = (r1, t1)" by (cases q)
    from search_Ns [of eng predict c root_game "rnds i" t state True r1 t1 k] Some q
    have a: "Ns t1 k = Ns t k \<or> Ns t1 k = Some 0" by simp
    show ?thesis
    proof (cases r1)
      case None
      with Suc.prems Some q have "simulations eng predict c root_game rnds state (Suc i) n t1 = Some (r, t')"
        by simp
      from Suc.IH [OF this] a show ?thesis by auto
    next
      case (Some e)
      with Suc.prems \<open>search eng predict c root_game (rnds i) t state True = Some q\<close> q a
      show ?thesis by simp
    qed
  qed
qed

subsection \<open>Counts that are all zero\<close>






lemma quiet_one_simulation:
  "simulations quiet flat 1 start_game zero_draws 1 0 1 init_tree = Some (None, tree1)"
  by (simp add: zero_draws_fun quiet_search1)

subsection \<open>Exceptions that getNextState turns into a normal return\<close>

lemma getNextState_absorbs:
  assumes "\<not> ended g" and "attempt eng a g = (Some x, g1)"
    and "x = GameOver \<and> g2 = g1
         \<or> x = InvalidAction \<and> end_turn eng g1 = (r, g2) \<and> (r = None \<or> r = Some GameOver)"
  shows "getNextState eng p a g
           = (Inr (getState eng g2, if fst a \<noteq> 19 then p else - p), g2)"
  using assms by (auto simp: getNextState_def performAction_if)

lemma picky_state2: "getState picky armed_turn2 = 2"
  by (simp add: picky_def quiet_def armed_turn2_fields)

lemma stubborn_end_turn: "end_turn stubborn g = (Some InvalidAction, g)"
  by (simp add: stubborn_def)

section \<open>The claims\<close>

text \<open>
  C1. The claim: every simulation increments the node count \<open>Ns\<close> of the root once, so
  after k simulations it is k. The code sets \<open>Ns[s] = 0\<close> at expansion and never adds
  to it (see also \<open>simulations_Ns\<close>). Two simulations from a fresh tree with the quiet
  engine return normally; the root edge has been visited once, the root count is 0.
\<close>

theorem root_visit_count_stays_zero:
  "simulations quiet flat 1 start_game zero_draws 1 0 2 init_tree = Some (None, tree2)
   \<and> Ns tree2 1 = Some 0 \<and> Nsa tree2 (1, (19, 1)) = Some 1"
  by (simp add: quiet_two_runs) (simp add: tree2_def init_tree_def)

text \<open>
  C2. The claim: after backpropagation the value \<open>Qsa\<close> of an edge is the mean of the
  signed values sent through it. The code increments \<open>Nsa\<close> first and then divides by
  \<open>Nsa + 1\<close>: one value 1 through a fresh edge leaves the value 1/2 with count 1, a
  second value 1 leaves 2/3 with count 2, where the mean is 1 both times.
\<close>

theorem backpropagate_divides_by_visits_plus_one:
  "backpropagate First (Some 1) init_tree [(1 :: int, (19, 1), First)]
     = (None, init_tree\<lparr>Nsa := [(1, (19, 1)) \<mapsto> 1], Qsa := [(1, (19, 1)) \<mapsto> 1 / 2]\<rparr>)
   \<and> backpropagate First (Some 1)
         (init_tree\<lparr>Nsa := [(1 :: int, (19, 1)) \<mapsto> 1], Qsa := [(1, (19, 1)) \<mapsto> 1 / 2]\<rparr>)
         [(1, (19, 1), First)]
     = (None, init_tree\<lparr>Nsa := [(1, (19, 1)) \<mapsto> 2], Qsa := [(1, (19, 1)) \<mapsto> 2 / 3]\<rparr>)"
  by (simp add: backprop_step_def Let_def init_tree_def del: One_nat_def)

text \<open>
  C3. At a state with a cached prior and a node count (floats read as reals, every
  edge with a value also having a count), the score computed for each action is the
  \<open>U\<close> of the specification, and of the legal actions, when there is one, the scan
  returns the first one in row-major order that attains the greatest score: every legal
  cell before it scores strictly less, every legal cell after it scores no more.
\<close>

theorem best_action_first_maximum:
  assumes "Ps t s = Some p" and "Ns t s = Some n"
    and "\<forall>a. has_key (Qsa t) (s, a) \<longrightarrow> has_key (Nsa t) (s, a)"
    and "\<exists>a \<in> set grid. valids a"
  shows "(\<forall>b. ucb t c s b = Inr (U_spec (\<lambda>a. Qsa t (s, a)) p n (\<lambda>a. Nsa t (s, a)) c b))
         \<and> (\<exists>a ys zs. best_action t c s valids = Inr (Some a) \<and> valids a \<and> grid = ys @ a # zs
               \<and> (\<forall>b \<in> set ys. valids b \<longrightarrow>
                     U_spec (\<lambda>a. Qsa t (s, a)) p n (\<lambda>a. Nsa t (s, a)) c b
                       < U_spec (\<lambda>a. Qsa t (s, a)) p n (\<lambda>a. Nsa t (s, a)) c a)
               \<and> (\<forall>b \<in> set zs. valids b \<longrightarrow>
                     U_spec (\<lambda>a. Qsa t (s, a)) p n (\<lambda>a. Nsa t (s, a)) c b
                       \<le> U_spec (\<lambda>a. Qsa t (s, a)) p n (\<lambda>a. Nsa t (s, a)) c a))"
proof -
  let ?U = "U_spec (\<lambda>a. Qsa t (s, a)) p n (\<lambda>a. Nsa t (s, a)) c"
  have u: "\<forall>b. ucb t c s b = Inr (?U b)"
    using ucb_value [OF assms(1,2)] assms(3) by simp
  have start: "first_best ?U valids [] (None, None)" by (simp add: first_best_def)
  from scan_first_best [of grid valids t c s ?U "[]" "(None, None)"] u start
  obtain acc where acc: "scan t c s valids grid (None, None) = Inr acc"
    "first_best ?U valids grid acc" by auto
  from acc(2) assms(4) obtain a ys zs where
    r: "acc = (Some (?U a), Some a)" "valids a" "grid = ys @ a # zs"
      "\<forall>b \<in> set ys. valids b \<longrightarrow> ?U b < ?U a" "\<forall>b \<in> set zs. valids b \<longrightarrow> ?U b \<le> ?U a"
    unfolding first_best_def by blast
  have "best_action t c s valids = Inr (Some a)"
    by (simp add: best_action_def acc(1) r(1))
  with r(2-5) u show ?thesis by blast
qed

text \<open>
  C3, a run: two legal actions with equal scores, and the earlier one, (0, 0), is chosen.
\<close>

theorem best_action_first_maximum_witness:
  "Ps tie_tree 1 = Some (\<lambda>a. 1 / 2) \<and> Ns tie_tree 1 = Some 0 \<and> two_moves (19, 1)
   \<and> best_action tie_tree 1 1 two_moves = Inr (Some (0, 0))
   \<and> (\<exists>a ys zs. best_action tie_tree 1 1 two_moves = Inr (Some a) \<and> two_moves a
         \<and> grid = ys @ a # zs)"
proof -
  have p: "Ps tie_tree 1 = Some (\<lambda>a. 1 / 2)" and n: "Ns tie_tree 1 = Some 0"
    by (simp_all add: tie_tree_def init_tree_def)
  have k: "\<forall>a. has_key (Qsa tie_tree) (1, a) \<longrightarrow> has_key (Nsa tie_tree) (1, a)"
    by (simp add: tie_tree_def init_tree_def has_key_def)
  have v: "two_moves (19, 1)" by (simp add: two_moves_def)
  have g: "(19, 1) \<in> set grid" by (simp add: grid_set)
  from v g have e: "\<exists>a \<in> set grid. two_moves a" by blast
  have b: "best_action tie_tree 1 1 two_moves = Inr (Some (0, 0))"
    by (simp add: best_action_filter two_moves_cells ucb_def has_key_def tie_tree_def
        init_tree_def del: One_nat_def)
  from best_action_first_maximum [OF p n k e, of 1] p n v b show ?thesis by blast
qed






text \<open>
  C6, as stated, fails: an InvalidAction does not end the path. After two simulations
  with the picky engine the third one selects (0, 0) at the root, the engine rejects the
  play with InvalidAction, performAction ends the turn instead, and selection goes on
  from the next state: this simulation records the edge (2, (19, 1)) after the rejected
  one, and both edges are updated.
\<close>

theorem search_continues_after_rejection:
  "simulations picky flat 1 armed_game zero_draws 1 0 2 init_tree = Some (None, stree2)
   \<and> best_action stree2 1 1 two_moves = Inr (Some (0, 0))
   \<and> attempt picky (0, 0) armed_game = (Some InvalidAction, armed_game)
   \<and> search picky flat 1 armed_game (zero_draws 2) stree2 1 True = Some (None, stree3)
   \<and> Nsa stree2 (2, (19, 1)) = None \<and> Nsa stree3 (2, (19, 1)) = Some 1
   \<and> Nsa stree3 (1, (0, 0)) = Some 2"
  by (simp add: numeral_2_eq_2 zero_draws_fun picky_search1 picky_search2 picky_search3
      best_stree2_root picky_attempt)
     (simp add: stree2_def stree3_def stree1_expanded_def init_tree_def)

text \<open>
  C6, amended. No GameOver leaves search, and an InvalidAction leaves it only when
  end_turn itself raised one (inside a handler of performAction). When the action chosen
  in the selection loop, or drawn in the rollout, raises GameOver, or raises
  InvalidAction and the end_turn of the handler returns or raises GameOver, getNextState
  returns normally: selection appends the edge to the path and goes on from the
  resulting game, and the rollout goes on likewise.
\<close>

theorem search_absorbs_rejections:
  "(search eng predict c root_game rnd t0 state create_copy = Some (Some e, t')
      \<longrightarrow> e \<noteq> GameOver
          \<and> (e = InvalidAction \<longrightarrow> (\<exists>g'. fst (end_turn eng g') = Some InvalidAction)))
   \<and> (\<not> ended g \<and> attempt eng (int (fst a), int (snd a)) g = (Some x, g1)
        \<and> (x = GameOver \<and> g2 = g1
            \<or> x = InvalidAction \<and> end_turn eng g1 = (r, g2) \<and> (r = None \<or> r = Some GameOver))
      \<longrightarrow> (\<not> has_key (Es t) s \<and> has_key (Ps t) s \<and> getValidMoves eng g = Inr valids
             \<and> best_action t c s valids = Inr (Some a)
            \<longrightarrow> select eng c t g s ns path
                  = select eng c t g2 (stringRepresentation (getState eng g2)) (getState eng g2)
                      (path @ [(s, a, current g)]))
          \<and> (\<not> has_key (Es t) s \<and> getValidMoves eng g = Inr valids \<and> filter valids grid \<noteq> []
             \<and> filter valids grid ! (rnd k mod length (filter valids grid)) = a
            \<longrightarrow> simulate eng t rnd k g s
                  = simulate eng t rnd (Suc k) g2 (stringRepresentation (getState eng g2))))"
proof (intro conjI impI)
  assume "search eng predict c root_game rnd t0 state create_copy = Some (Some e, t')"
  from search_raises [OF this]
  show "e \<noteq> GameOver" by simp
next
  assume "search eng predict c root_game rnd t0 state create_copy = Some (Some e, t')"
    and "e = InvalidAction"
  with search_raises [of eng predict c root_game rnd t0 state create_copy e t']
  show "\<exists>g'. fst (end_turn eng g') = Some InvalidAction" by simp
next
  assume h: "\<not> ended g \<and> attempt eng (int (fst a), int (snd a)) g = (Some x, g1)
        \<and> (x = GameOver \<and> g2 = g1
            \<or> x = InvalidAction \<and> end_turn eng g1 = (r, g2) \<and> (r = None \<or> r = Some GameOver))"
    and k: "\<not> has_key (Es t) s \<and> has_key (Ps t) s \<and> getValidMoves eng g = Inr valids
             \<and> best_action t c s valids = Inr (Some a)"
  from h have n: "getNextState eng 1 (int (fst a), int (snd a)) g
      = (Inr (getState eng g2, if fst (int (fst a), int (snd a)) \<noteq> 19 then 1 else - 1), g2)"
    by (intro getNextState_absorbs) blast+
  show "select eng c t g s ns path
          = select eng c t g2 (stringRepresentation (getState eng g2)) (getState eng g2)
              (path @ [(s, a, current g)])"
    by (subst select.simps) (simp add: h k n)
next
  assume h: "\<not> ended g \<and> attempt eng (int (fst a), int (snd a)) g = (Some x, g1)
        \<and> (x = GameOver \<and> g2 = g1
            \<or> x = InvalidAction \<and> end_turn eng g1 = (r, g2) \<and> (r = None \<or> r = Some GameOver))"
    and k: "\<not> has_key (Es t) s \<and> getValidMoves eng g = Inr valids \<and> filter valids grid \<noteq> []
             \<and> filter valids grid ! (rnd k mod length (filter valids grid)) = a"
  from h have n: "getNextState eng 1 (int (fst a), int (snd a)) g
      = (Inr (getState eng g2, if fst (int (fst a), int (snd a)) \<noteq> 19 then 1 else - 1), g2)"
    by (intro getNextState_absorbs) blast+
  show "simulate eng t rnd k g s
          = simulate eng t rnd (Suc k) g2 (stringRepresentation (getState eng g2))"
    by (subst simulate.simps) (simp add: h k n Let_def)
qed

text \<open>
  C6, runs: with the stubborn engine the InvalidAction of end_turn leaves search; with
  the picky engine the rejected action (0, 0) lets selection and rollout go on from the
  second turn.
\<close>

theorem search_absorbs_rejections_witness:
  "search stubborn flat 1 armed_game (zero_draws 0) init_tree 1 True
     = Some (Some InvalidAction, stree1)
   \<and> InvalidAction \<noteq> GameOver
   \<and> (\<exists>g'. fst (end_turn stubborn g') = Some InvalidAction)
   \<and> \<not> ended armed_game
   \<and> attempt picky (0, 0) armed_game = (Some InvalidAction, armed_game)
   \<and> end_turn picky armed_game = (None, armed_turn2)
   \<and> best_action stree2 1 1 two_moves = Inr (Some (0, 0))
   \<and> select picky 1 stree2 armed_game 1 1 []
       = select picky 1 stree2 armed_turn2 2 2 [(1, (0, 0), First)]
   \<and> simulate picky init_tree (zero_draws 0) 0 armed_game 1
       = simulate picky init_tree (zero_draws 0) (Suc 0) armed_turn2 2"
proof -
  have a: "search stubborn flat 1 armed_game (zero_draws 0) init_tree 1 True
             = Some (Some InvalidAction, stree1)"
    by (simp add: zero_draws_fun stubborn_search1)
  have ne: "\<not> ended armed_game" by (simp add: armed_game_fields)
  have b: "\<exists>g'. fst (end_turn stubborn g') = Some InvalidAction"
    using search_absorbs_rejections [where eng = stubborn and predict = flat and c = 1
        and root_game = armed_game and rnd = "zero_draws 0" and ?t0.0 = init_tree and state = 1
        and create_copy = True and e = InvalidAction and t' = stree1] a
    by blast
  have c: "select picky 1 stree2 armed_game 1 1 []
             = select picky 1 stree2 armed_turn2 2 2 [(1, (0, 0), First)]"
    using search_absorbs_rejections [where eng = picky and c = 1 and t = stree2
        and g = armed_game and a = "(0, 0)" and x = InvalidAction and ?g1.0 = armed_game
        and ?g2.0 = armed_turn2 and r = None and s = 1 and valids = two_moves and ns = 1
        and path = "[]"]
    by (simp add: ne picky_attempt picky_end_turn1 stree_keys picky_moves1 best_stree2_root
        picky_state2 stringRepresentation_def armed_game_fields)
  have d: "simulate picky init_tree (zero_draws 0) 0 armed_game 1
             = simulate picky init_tree (zero_draws 0) (Suc 0) armed_turn2 2"
    using search_absorbs_rejections [where eng = picky and t = init_tree
        and g = armed_game and a = "(0, 0)" and x = InvalidAction and ?g1.0 = armed_game
        and ?g2.0 = armed_turn2 and r = None and s = 1 and valids = two_moves
        and rnd = "zero_draws 0" and k = 0]
    by (simp add: ne picky_attempt picky_end_turn1 stree_keys picky_moves1 two_moves_cells
        picky_state2 stringRepresentation_def zero_draws_def)
  from a b ne picky_attempt picky_end_turn1 best_stree2_root c d show ?thesis by simp
qed

text \<open>
  C7. The clone holds the opponent's cards of the original: hand plus deck sort to the
  same list (hand and deck each keep their cards), and nothing else differs, so the
  acting player's record and all that is on the board are the original's.
\<close>

theorem cloneAndRandomize_preserves:
  fixes game_instance :: "('c::linorder, 'h) game"
  shows "sort (hand (opponent (fst (cloneAndRandomize rnd k game_instance)))
               @ deck (opponent (fst (cloneAndRandomize rnd k game_instance))))
           = sort (hand (opponent game_instance) @ deck (opponent game_instance))
         \<and> mset (hand (opponent (fst (cloneAndRandomize rnd k game_instance))))
             = mset (hand (opponent game_instance))
         \<and> mset (deck (opponent (fst (cloneAndRandomize rnd k game_instance))))
             = mset (deck (opponent game_instance))
         \<and> current_player (fst (cloneAndRandomize rnd k game_instance))
             = current_player game_instance
         \<and> opponent (fst (cloneAndRandomize rnd k game_instance))
               \<lparr>hand := hand (opponent game_instance), deck := deck (opponent game_instance)\<rparr>
             = opponent game_instance
         \<and> fst (cloneAndRandomize rnd k game_instance)
               \<lparr>player1 := player1 game_instance, player2 := player2 game_instance\<rparr>
             = game_instance"
proof -
  obtain h k1 where h: "shuffle rnd k (hand (opponent game_instance)) = (h, k1)"
    by (cases "shuffle rnd k (hand (opponent game_instance))")
  obtain d k2 where d: "shuffle rnd k1 (deck (opponent game_instance)) = (d, k2)"
    by (cases "shuffle rnd k1 (deck (opponent game_instance))")
  have mh: "mset h = mset (hand (opponent game_instance))"
    using shuffle_mset [of rnd k "hand (opponent game_instance)"] h by simp
  have md: "mset d = mset (deck (opponent game_instance))"
    using shuffle_mset [of rnd k1 "deck (opponent game_instance)"] d by simp
  have c: "fst (cloneAndRandomize rnd k game_instance) =
             (case other (current game_instance) of
                First \<Rightarrow> game_instance\<lparr>player1 := opponent game_instance\<lparr>hand := h, deck := d\<rparr>\<rparr>
              | Second \<Rightarrow> game_instance\<lparr>player2 := opponent game_instance\<lparr>hand := h, deck := d\<rparr>\<rparr>)"
    by (simp add: cloneAndRandomize_def Let_def h d)
  have o: "opponent (fst (cloneAndRandomize rnd k game_instance))
             = opponent game_instance\<lparr>hand := h, deck := d\<rparr>"
    by (cases "current game_instance") (simp_all add: c opponent_def other_def seated_def)
  have p: "current_player (fst (cloneAndRandomize rnd k game_instance))
             = current_player game_instance"
    by (cases "current game_instance") (simp_all add: c current_player_def other_def seated_def)
  have r: "fst (cloneAndRandomize rnd k game_instance)
               \<lparr>player1 := player1 game_instance, player2 := player2 game_instance\<rparr>
             = game_instance"
    by (cases "current game_instance") (simp_all add: c other_def)
  have "mset (h @ d) = mset (hand (opponent game_instance) @ deck (opponent game_instance))"
    by (simp add: mh md)
  then have s: "sort (h @ d) = sort (hand (opponent game_instance) @ deck (opponent game_instance))"
    by (metis properties_for_sort sorted_sort mset_sort)
  show ?thesis by (simp add: o p r mh md s)
qed

text \<open>
  C8. Whenever getNextState returns, for a player id of 1 or -1, the id it returns
  is the negated id exactly when the slot of the action is 19, and the id itself for
  every other slot.
\<close>

theorem getNextState_player:
  assumes "getNextState eng player action g = (Inr (next_state, next_player), g')"
    and "player = 1 \<or> player = - 1"
  shows "(next_player = - player \<longleftrightarrow> fst action = 19)
         \<and> (fst action \<noteq> 19 \<longrightarrow> next_player = player)"
  using assms
  by (auto simp: getNextState_def split: prod.splits option.splits exn.splits if_splits)

text \<open>
  C8, runs: slot 19 turns player 1 into -1, slot 0 leaves it (on an empty hand the
  turn ends all the same).
\<close>

theorem getNextState_player_witness:
  "getNextState quiet 1 (19, 1) start_game
     = (Inr (2, - 1), start_game\<lparr>turn := 2, current := Second\<rparr>)
   \<and> getNextState quiet 1 (0, 0) start_game
     = (Inr (2, 1), start_game\<lparr>turn := 2, current := Second\<rparr>)
   \<and> ((1::int) = 1 \<or> (1::int) = - 1)
   \<and> ((- 1 :: int) = - 1 \<longleftrightarrow> fst (19 :: int, 1 :: int) = 19)
   \<and> fst (0 :: int, 0 :: int) \<noteq> 19"
proof -
  have a: "getNextState quiet 1 (19, 1) start_game
             = (Inr (2, - 1), start_game\<lparr>turn := 2, current := Second\<rparr>)"
    by (simp add: getNextState_def quiet_end_turn_start_game) (simp add: quiet_def start_game_def)
  have b: "getNextState quiet 1 (0, 0) start_game
             = (Inr (2, 1), start_game\<lparr>turn := 2, current := Second\<rparr>)"
    by (simp add: getNextState_def quiet_bad_slot_start_game) (simp add: quiet_def start_game_def)
  have p: "(1::int) = 1 \<or> (1::int) = - 1" by simp
  from getNextState_player [OF a p] getNextState_player [OF b p] a b show ?thesis by simp
qed



text \<open>
  C10. getGameEnded is not a pure query: when the turn counter exceeds 180 and the
  playstate of the player to start is none of 4 (won), 5 (lost), 6 (tied), the call sets
  the ended flag of the game to True and returns 0.0001; on every other input the game
  is unchanged and the value is 1, -1, 0.0001 or 0 by that playstate.
\<close>

theorem getGameEnded_effect:
  "(turn g > 180 \<and> playstate (seated g (player_to_start g)) \<notin> {4, 5, 6}
      \<longrightarrow> getGameEnded g = (1 / 10000, g\<lparr>ended := True\<rparr>))
   \<and> (\<not> (turn g > 180 \<and> playstate (seated g (player_to_start g)) \<notin> {4, 5, 6})
      \<longrightarrow> snd (getGameEnded g) = g
        \<and> fst (getGameEnded g) =
            (if playstate (seated g (player_to_start g)) = 4 then 1
             else if playstate (seated g (player_to_start g)) = 5 then - 1
             else if playstate (seated g (player_to_start g)) = 6 then 1 / 10000
             else 0))"
  by (simp add: getGameEnded_def Let_def)

text \<open>
  C10, runs: turn 181 with a playing starter sets the flag; the first turn changes nothing.
\<close>

theorem getGameEnded_effect_witness:
  "(turn (start_game\<lparr>turn := 181\<rparr>) > 180
     \<and> playstate (seated (start_game\<lparr>turn := 181\<rparr>) (player_to_start (start_game\<lparr>turn := 181\<rparr>))) \<notin> {4, 5, 6}
     \<and> \<not> ended (start_game\<lparr>turn := 181\<rparr>)
     \<and> getGameEnded (start_game\<lparr>turn := 181\<rparr>) = (1 / 10000, start_game\<lparr>turn := 181, ended := True\<rparr>))
   \<and> (\<not> (turn start_game > 180 \<and> playstate (seated start_game (player_to_start start_game)) \<notin> {4, 5, 6})
     \<and> getGameEnded start_game = (0, start_game))"
  using getGameEnded_effect [of "start_game\<lparr>turn := 181\<rparr>"] getGameEnded_effect [of start_game]
  by (simp add: start_game_def bare_player_def seated_def prod_eq_iff)

end
